theory Spec2Isabelle
  imports Main "HOL-Library.Word" "HOL-Library.AList"
begin

section \<open>The b2 Writer (src/b2/writer.go)\<close>

text \<open>
  A shallow embedding of \<^verbatim>\<open>writer.go\<close>. The \<^verbatim>\<open>Writer\<close> struct is a record that is
  passed through every operation and returned updated. A Go \<^verbatim>\<open>error\<close> value is an
  \<open>error option\<close> (\<open>None\<close> is \<^verbatim>\<open>nil\<close>), a run-time panic is the left summand of the
  result, and an operation that never returns (an unbounded retry or pagination loop, a
  send that no one ever accepts) has the value \<open>None\<close>.
\<close>

subsection \<open>Values\<close>

type_synonym byte = "8 word"
type_synonym buffer = "byte list"

datatype error = Err string

datatype fault =
    NilDereference
  | SliceBoundsOutOfRange
  | SendOnClosedChannel
  | CloseOfNilChannel
  | CloseOfClosedChannel

type_synonym 'a res = "fault + 'a"

type_synonym endpoint = nat
type_synonym largefile = nat
type_synonym fileref = nat
type_synonym mapref = nat

text \<open>\<^verbatim>\<open>type chunk struct { id int; buf writeBuffer }\<close>; a \<^verbatim>\<open>writeBuffer\<close> may be nil.\<close>

datatype chunk = Chunk (chunk_id: int) (chunk_buf: "buffer option")

datatype chan = ChanNil | ChanOpen | ChanClosed

datatype object = Object (obj_name: string) (obj_f: largefile)

datatype part = Part (number: int) (sha1: string) (psize: int)

text \<open>
  Every call that leaves the Writer is recorded, in order, in the ghost field \<open>trace\<close>.
\<close>

datatype event =
    EvStartLargeFile string string "mapref option"
  | EvListObjects string
  | EvListParts largefile int
  | EvThread
  | EvHandOff chunk
  | EvCtxDone
  | EvCloseReady
  | EvWait
  | EvFinishLargeFile largefile
  | EvGetUploadURL
  | EvUploadFile endpoint buffer int string string string "mapref option"
  | EvGetUploadPartURL
  | EvUploadPart endpoint int
  | EvSleep int

text \<open>
  The outcome of the \<^verbatim>\<open>select\<close> in \<^verbatim>\<open>sendChunk\<close>: a worker accepts the chunk, or the
  context is done. In the second case the first component is the error a worker stored
  concurrently before cancelling (\<open>None\<close> when the parent context was cancelled or the
  error was stored earlier), the second is \<^verbatim>\<open>ctx.Err()\<close>.
\<close>

datatype select_outcome = Accepted | Done "error option" error

record Writer =
  ConcurrentUploads :: int
  Resume :: bool
  ChunkSize :: int
  contentType :: string
  info :: "mapref option"
  csize :: int
  cancelCalls :: nat
  ready :: chan
  wg :: int
  start_fired :: bool
  once_fired :: bool
  done_fired :: bool
  file_lf :: "largefile option"
  seen :: "int \<rightharpoonup> string"
  o_f :: "fileref option"
  name :: string
  cidx :: int
  w :: "buffer option"
  err :: "error option"
  trace :: "event list"

text \<open>
  The collaborators of the Writer (the backend, the retry classifier, the buffer's hash and
  reader, the scheduler that decides the \<^verbatim>\<open>select\<close>) are parameters. A call that goes
  out at a moment when \<open>n\<close> events have been recorded gets the answer the environment
  gives at index \<open>n\<close>.
\<close>

record env =
  hashOf :: "buffer \<Rightarrow> string"
  bufWriteErr :: "buffer \<Rightarrow> buffer \<Rightarrow> error option"
  readerErr :: "buffer \<Rightarrow> error option"
  reupload :: "error option \<Rightarrow> bool"
  getUploadURL :: "nat \<Rightarrow> error + endpoint"
  uploadFile :: "nat \<Rightarrow> endpoint \<Rightarrow> error + fileref"
  startLargeFile :: "nat \<Rightarrow> error + largefile"
  listObjects :: "nat \<Rightarrow> error + object list"
  listParts :: "nat \<Rightarrow> largefile \<Rightarrow> int \<Rightarrow> error + (part list \<times> int)"
  compileParts :: "largefile \<Rightarrow> int \<Rightarrow> (int \<rightharpoonup> string) \<Rightarrow> largefile"
  selectReady :: "nat \<Rightarrow> select_outcome"
  waitWorkers :: "nat \<Rightarrow> error option"
  finishLargeFile :: "nat \<Rightarrow> largefile \<Rightarrow> error + fileref"
  getUploadPartURL :: "nat \<Rightarrow> error + endpoint"
  uploadPart :: "nat \<Rightarrow> endpoint \<Rightarrow> chunk \<Rightarrow> int \<times> error option"

definition tick :: "Writer \<Rightarrow> nat" where
  "tick s = length (trace s)"

definition logEv :: "event \<Rightarrow> Writer \<Rightarrow> Writer" where
  "logEv e s = s\<lparr>trace := trace s @ [e]\<rparr>"

definition Len :: "buffer \<Rightarrow> int" where
  "Len b = int (length b)"

subsection \<open>setErr and getErr\<close>

text \<open>
  \<^verbatim>\<open>setErr\<close> runs under the write lock and \<^verbatim>\<open>getErr\<close> under the read lock, so each is
  one atomic step on the record. \<open>cancelCalls\<close> counts the calls of \<^verbatim>\<open>w.cancel()\<close>.
\<close>

definition setErr :: "error option \<Rightarrow> Writer \<Rightarrow> Writer" where
  "setErr e s =
     (case e of
        None \<Rightarrow> s
      | Some x \<Rightarrow>
          if err s = None then s\<lparr>cancelCalls := cancelCalls s + 1, err := Some x\<rparr>
          else s)"

definition getErr :: "Writer \<Rightarrow> error option" where
  "getErr s = err s"

text \<open>The first non-nil error of a sequence of \<^verbatim>\<open>setErr\<close> arguments.\<close>

fun firstErr :: "error option list \<Rightarrow> error option" where
  "firstErr [] = None"
| "firstErr (None # es) = firstErr es"
| "firstErr (Some x # es) = Some x"

subsection \<open>The worker\<close>

definition wrap64 :: "int \<Rightarrow> int" where
  "wrap64 x = (x + 2 ^ 63) mod 2 ^ 64 - 2 ^ 63"

definition Millisecond :: int where
  "Millisecond = 1000000"

definition Second :: int where
  "Second = 1000000000"

text \<open>\<^verbatim>\<open>sleep *= 2; if sleep > time.Second*15 { sleep = time.Second * 15 }\<close> on an int64.\<close>

definition nextSleep :: "int \<Rightarrow> int" where
  "nextSleep sleep =
     (let sleep2 = wrap64 (sleep * 2)
      in if sleep2 > Second * 15 then Second * 15 else sleep2)"

definition errChunksDontMatch :: error where
  "errChunksDontMatch = Err ''resumable upload was requested, but chunks don't match!''"

datatype loop_ctl = Continue | Return

text \<open>The \<^verbatim>\<open>redo\<close> loop of \<^verbatim>\<open>thread\<close> (lines 133 to 153).\<close>

partial_function (option) uploadRetry ::
  "env \<Rightarrow> chunk \<Rightarrow> buffer \<Rightarrow> endpoint \<Rightarrow> int \<Rightarrow> Writer \<Rightarrow> ((loop_ctl \<times> endpoint) \<times> Writer) option"
where
  "uploadRetry env c b fc sleep s =
     (case uploadPart env (tick s) fc c of
        (n, e) \<Rightarrow>
          let s1 = logEv (EvUploadPart fc (chunk_id c)) s in
          if n \<noteq> Len b \<or> e \<noteq> None then
            if reupload env e then
              let s2 = logEv (EvSleep sleep) s1;
                  sleep' = nextSleep sleep
              in case getUploadPartURL env (tick s2) of
                   Inl e2 \<Rightarrow> Some ((Return, fc), setErr (Some e2) (logEv EvGetUploadPartURL s2))
                 | Inr f \<Rightarrow> uploadRetry env c b f sleep' (logEv EvGetUploadPartURL s2)
            else Some ((Return, fc), setErr e s1)
          else Some ((Continue, fc), s1))"

declare uploadRetry.simps [code]

text \<open>The body of the \<^verbatim>\<open>for\<close> loop of \<^verbatim>\<open>thread\<close> for one dequeued chunk.\<close>

definition handleChunk ::
  "env \<Rightarrow> endpoint \<Rightarrow> chunk \<Rightarrow> Writer \<Rightarrow> ((loop_ctl \<times> endpoint) \<times> Writer) res option"
where
  "handleChunk env fc c s =
     (case seen s (chunk_id c) of
        Some sha \<Rightarrow>
          (case chunk_buf c of
             None \<Rightarrow> Some (Inl NilDereference)
           | Some b \<Rightarrow>
               if sha \<noteq> hashOf env b
               then Some (Inr ((Return, fc), setErr (Some errChunksDontMatch) s))
               else Some (Inr ((Continue, fc), s)))
      | None \<Rightarrow>
          (case chunk_buf c of
             None \<Rightarrow> Some (Inl NilDereference)
           | Some b \<Rightarrow>
               (case readerErr env b of
                  Some e \<Rightarrow> Some (Inr ((Return, fc), setErr (Some e) s))
                | None \<Rightarrow> map_option Inr (uploadRetry env c b fc (Millisecond * 15) s))))"

text \<open>
  The \<^verbatim>\<open>for\<close> loop of \<^verbatim>\<open>thread\<close> over the chunks this worker receives before the
  queue is closed.
\<close>

fun threadLoop :: "env \<Rightarrow> endpoint \<Rightarrow> chunk list \<Rightarrow> Writer \<Rightarrow> Writer res option" where
  "threadLoop env fc [] s = Some (Inr s)"
| "threadLoop env fc (c # cs) s =
     (case handleChunk env fc c s of
        None \<Rightarrow> None
      | Some (Inl f) \<Rightarrow> Some (Inl f)
      | Some (Inr ((Return, fc'), s')) \<Rightarrow> Some (Inr s')
      | Some (Inr ((Continue, fc'), s')) \<Rightarrow> threadLoop env fc' cs s')"

definition thread :: "env \<Rightarrow> chunk list \<Rightarrow> Writer \<Rightarrow> Writer res option" where
  "thread env chunks s =
     (case file_lf s of
        None \<Rightarrow> Some (Inl NilDereference)
      | Some lf \<Rightarrow>
          (case getUploadPartURL env (tick s) of
             Inl e \<Rightarrow> Some (Inr (setErr (Some e) (logEv EvGetUploadPartURL s)))
           | Inr fc \<Rightarrow>
               (case threadLoop env fc chunks ((logEv EvGetUploadPartURL s)\<lparr>wg := wg s + 1\<rparr>) of
                  None \<Rightarrow> None
                | Some (Inl f) \<Rightarrow> Some (Inl f)
                | Some (Inr s2) \<Rightarrow> Some (Inr (s2\<lparr>wg := wg s2 - 1\<rparr>)))))"

subsection \<open>The buffer\<close>

text \<open>
  Modelled from the spec: the type \<^verbatim>\<open>writeBuffer\<close> and \<^verbatim>\<open>newMemoryBuffer\<close> are declared
  outside \<^verbatim>\<open>writer.go\<close>. The spec's Accumulator is the not-yet-sent byte buffer: a fresh
  buffer is empty, \<^verbatim>\<open>Len\<close> is the number of bytes held, and a write appends its
  argument and reports its length. Whether a write or the creation of a reader fails,
  and the digest \<^verbatim>\<open>Hash\<close> returns, are left to the environment; a failed write appends
  nothing and reports zero bytes.
\<close>

definition newMemoryBuffer :: buffer where
  "newMemoryBuffer = []"

definition bufWrite :: "env \<Rightarrow> buffer \<Rightarrow> buffer \<Rightarrow> Writer \<Rightarrow> (int \<times> error option) \<times> Writer" where
  "bufWrite env b p s =
     (case bufWriteErr env b p of
        Some e \<Rightarrow> ((0, Some e), s)
      | None \<Rightarrow> ((Len p, None), s\<lparr>w := Some (b @ p)\<rparr>))"

subsection \<open>getLargeFile\<close>

definition defaultCType :: "string \<Rightarrow> string" where
  "defaultCType ct = (if ct = [] then ''application/octet-stream'' else ct)"

text \<open>The branch \<^verbatim>\<open>if !w.Resume\<close> of \<^verbatim>\<open>getLargeFile\<close>.\<close>

definition startFresh :: "env \<Rightarrow> Writer \<Rightarrow> (error + largefile) \<times> Writer" where
  "startFresh env s =
     (let ctype = defaultCType (contentType s)
      in (startLargeFile env (tick s), logEv (EvStartLargeFile (name s) ctype (info s)) s))"

text \<open>
  The \<^verbatim>\<open>for\<close> loop of \<^verbatim>\<open>getLargeFile\<close> with its local variables \<^verbatim>\<open>next\<close>, \<^verbatim>\<open>seen\<close> and
  \<^verbatim>\<open>size\<close> (an int64), and the two statements after the loop.
\<close>

partial_function (option) resumeLoop ::
  "env \<Rightarrow> int \<Rightarrow> (int \<rightharpoonup> string) \<Rightarrow> int \<Rightarrow> Writer \<Rightarrow> ((error + largefile) \<times> Writer) option"
where
  "resumeLoop env nxt sn sz s =
     (case listObjects env (tick s) of
        Inl e \<Rightarrow> Some (Inl e, logEv (EvListObjects (name s)) s)
      | Inr objs \<Rightarrow>
          let s1 = logEv (EvListObjects (name s)) s in
          (case objs of
             [] \<Rightarrow> Some (startFresh env (s1\<lparr>Resume := False\<rparr>))
           | ob # _ \<Rightarrow>
               if obj_name ob \<noteq> name s1 then Some (startFresh env (s1\<lparr>Resume := False\<rparr>))
               else
                 (case listParts env (tick s1) (obj_f ob) nxt of
                    Inl e \<Rightarrow> Some (Inl e, logEv (EvListParts (obj_f ob) nxt) s1)
                  | Inr (parts, n) \<Rightarrow>
                      let s2 = logEv (EvListParts (obj_f ob) nxt) s1;
                          sn' = fold (\<lambda>p m. m(number p \<mapsto> sha1 p)) parts sn;
                          sz' = fold (\<lambda>p z. wrap64 (z + psize p)) parts sz
                      in if length parts = 0 \<or> n = 0
                         then Some (Inr (compileParts env (obj_f ob) sz' sn'), s2\<lparr>seen := sn'\<rparr>)
                         else resumeLoop env n sn' sz' s2)))"

declare resumeLoop.simps [code]

definition getLargeFile :: "env \<Rightarrow> Writer \<Rightarrow> ((error + largefile) \<times> Writer) option" where
  "getLargeFile env s =
     (if \<not> Resume s then Some (startFresh env s)
      else resumeLoop env 1 Map.empty 0 s)"

subsection \<open>sendChunk\<close>

text \<open>\<^verbatim>\<open>for i := 0; i < w.ConcurrentUploads; i++ { w.thread() }\<close>: one goroutine each.\<close>

definition spawnThreads :: "int \<Rightarrow> Writer \<Rightarrow> Writer" where
  "spawnThreads n s = s\<lparr>trace := trace s @ replicate (nat n) EvThread\<rparr>"

text \<open>The function passed to \<^verbatim>\<open>w.once.Do\<close>; the result is the local \<^verbatim>\<open>err\<close>.\<close>

definition onceBody :: "env \<Rightarrow> Writer \<Rightarrow> (error option \<times> Writer) option" where
  "onceBody env s =
     (if once_fired s then Some (None, s)
      else
        (case getLargeFile env (s\<lparr>once_fired := True\<rparr>) of
           None \<Rightarrow> None
         | Some (Inl e, s1) \<Rightarrow> Some (Some e, s1)
         | Some (Inr lf, s1) \<Rightarrow>
             let s2 = s1\<lparr>file_lf := Some lf, ready := ChanOpen\<rparr>;
                 s3 = (if ConcurrentUploads s2 < 1 then s2\<lparr>ConcurrentUploads := 1\<rparr> else s2)
             in Some (None, spawnThreads (ConcurrentUploads s3) s3)))"

text \<open>
  A send on a nil channel never proceeds, a send on a closed channel panics when it is
  chosen.
\<close>

definition sendChunk :: "env \<Rightarrow> Writer \<Rightarrow> (error option \<times> Writer) res option" where
  "sendChunk env s =
     (case onceBody env s of
        None \<Rightarrow> None
      | Some (Some e, s1) \<Rightarrow> Some (Inr (Some e, s1))
      | Some (None, s1) \<Rightarrow>
          (case selectReady env (tick s1) of
             Done we ce \<Rightarrow> Some (Inr (Some ce, setErr we (logEv EvCtxDone s1)))
           | Accepted \<Rightarrow>
               (case ready s1 of
                  ChanNil \<Rightarrow> None
                | ChanClosed \<Rightarrow> Some (Inl SendOnClosedChannel)
                | ChanOpen \<Rightarrow>
                    let s2 = logEv (EvHandOff (Chunk (cidx s1 + 1) (w s1))) s1
                    in Some (Inr (None, s2\<lparr>cidx := cidx s2 + 1, w := Some newMemoryBuffer\<rparr>)))))"

subsection \<open>Write\<close>

text \<open>The function passed to \<^verbatim>\<open>w.start.Do\<close>.\<close>

definition startOnce :: "Writer \<Rightarrow> Writer" where
  "startOnce s =
     (if start_fired s then s
      else
        (let s1 = s\<lparr>start_fired := True, csize := ChunkSize s\<rparr>;
             s2 = (if csize s1 = 0 then s1\<lparr>csize := 100000000\<rparr> else s1)
         in s2\<lparr>w := Some newMemoryBuffer\<rparr>))"

partial_function (option) Write ::
  "env \<Rightarrow> buffer \<Rightarrow> Writer \<Rightarrow> ((int \<times> error option) \<times> Writer) res option"
where
  "Write env p s =
     (case getErr s of
        Some e \<Rightarrow> Some (Inr ((0, Some e), s))
      | None \<Rightarrow>
          let s1 = startOnce s in
          (case w s1 of
             None \<Rightarrow> Some (Inl NilDereference)
           | Some b \<Rightarrow>
               let left = csize s1 - Len b in
               if Len p < left then Some (Inr (bufWrite env b p s1))
               else if left < 0 then Some (Inl SliceBoundsOutOfRange)
               else
                 (case bufWrite env b (take (nat left) p) s1 of
                    ((i, Some e), s2) \<Rightarrow> Some (Inr ((i, Some e), setErr (Some e) s2))
                  | ((i, None), s2) \<Rightarrow>
                      (case sendChunk env s2 of
                         None \<Rightarrow> None
                       | Some (Inl f) \<Rightarrow> Some (Inl f)
                       | Some (Inr (Some e, s3)) \<Rightarrow>
                           let s4 = setErr (Some e) s3 in Some (Inr ((i, getErr s4), s4))
                       | Some (Inr (None, s3)) \<Rightarrow>
                           Option.bind (Write env (drop (nat left) p) s3)
                             (\<lambda>r. case r of
                                    Inl f \<Rightarrow> Some (Inl f)
                                  | Inr ((k, e2), s5) \<Rightarrow> Some (Inr ((i + k, e2), setErr e2 s5)))))))"

declare Write.simps [code]

subsection \<open>simpleWriteFile\<close>

text \<open>The \<^verbatim>\<open>redo\<close> loop of \<^verbatim>\<open>simpleWriteFile\<close> (lines 205 to 220).\<close>

partial_function (option) simpleRetry ::
  "env \<Rightarrow> endpoint \<Rightarrow> buffer \<Rightarrow> string \<Rightarrow> string \<Rightarrow> Writer \<Rightarrow> (error option \<times> Writer) option"
where
  "simpleRetry env ue b sha ctype s =
     (let s1 = logEv (EvUploadFile ue b (Len b) (name s) ctype sha (info s)) s in
      case uploadFile env (tick s) ue of
        Inl e \<Rightarrow>
          if reupload env (Some e) then
            (case getUploadURL env (tick s1) of
               Inl e2 \<Rightarrow> Some (Some e2, logEv EvGetUploadURL s1)
             | Inr u \<Rightarrow> simpleRetry env u b sha ctype (logEv EvGetUploadURL s1))
          else Some (Some e, s1)
      | Inr f \<Rightarrow> Some (None, s1\<lparr>o_f := Some f\<rparr>))"

declare simpleRetry.simps [code]

definition simpleWriteFile :: "env \<Rightarrow> Writer \<Rightarrow> (error option \<times> Writer) res option" where
  "simpleWriteFile env s =
     (case getUploadURL env (tick s) of
        Inl e \<Rightarrow> Some (Inr (Some e, logEv EvGetUploadURL s))
      | Inr ue \<Rightarrow>
          let s1 = logEv EvGetUploadURL s in
          (case w s1 of
             None \<Rightarrow> Some (Inl NilDereference)
           | Some b \<Rightarrow>
               let sha = hashOf env b;
                   ctype = defaultCType (contentType s1)
               in (case readerErr env b of
                     Some e \<Rightarrow> Some (Inr (Some e, s1))
                   | None \<Rightarrow> map_option Inr (simpleRetry env ue b sha ctype s1))))"

subsection \<open>Close\<close>

text \<open>
  The end of the function passed to \<^verbatim>\<open>w.done.Do\<close> (lines 316 to 323): the queue is
  closed, \<^verbatim>\<open>w.wg.Wait()\<close> is called and the large file is finished. \<^verbatim>\<open>Wait\<close> returns
  when every worker that has called \<^verbatim>\<open>w.wg.Add(1)\<close> has called \<^verbatim>\<open>Done\<close>; the error one of
  those workers stored meanwhile, if any, is the environment's answer. A worker calls
  \<^verbatim>\<open>Add\<close> only inside its goroutine, after \<^verbatim>\<open>getUploadPartURL\<close> (line 111), so \<^verbatim>\<open>Wait\<close>
  is no barrier for a worker that is still starting: that worker runs on after
  \<^verbatim>\<open>Close\<close> has returned (\<open>lateWorker\<close> below).
\<close>

definition finishParts :: "env \<Rightarrow> Writer \<Rightarrow> Writer res" where
  "finishParts env s1 =
     (case ready s1 of
        ChanNil \<Rightarrow> Inl CloseOfNilChannel
      | ChanClosed \<Rightarrow> Inl CloseOfClosedChannel
      | ChanOpen \<Rightarrow>
          let s2 = logEv EvCloseReady (s1\<lparr>ready := ChanClosed\<rparr>);
              s3 = setErr (waitWorkers env (tick s2)) (logEv EvWait s2)
          in (case file_lf s3 of
                None \<Rightarrow> Inl NilDereference
              | Some lf \<Rightarrow>
                  (case finishLargeFile env (tick s3) lf of
                     Inl e \<Rightarrow> Inr (setErr (Some e) (logEv (EvFinishLargeFile lf) s3))
                   | Inr f \<Rightarrow> Inr ((logEv (EvFinishLargeFile lf) s3)\<lparr>o_f := Some f\<rparr>))))"

text \<open>The function passed to \<^verbatim>\<open>w.done.Do\<close>.\<close>

definition closeBody :: "env \<Rightarrow> Writer \<Rightarrow> Writer res option" where
  "closeBody env s =
     (if cidx s = 0 then
        (case simpleWriteFile env s of
           None \<Rightarrow> None
         | Some (Inl f) \<Rightarrow> Some (Inl f)
         | Some (Inr (e, s1)) \<Rightarrow> Some (Inr (setErr e s1)))
      else
        (case w s of
           None \<Rightarrow> Some (Inl NilDereference)
         | Some b \<Rightarrow>
             (case (if Len b > 0 then sendChunk env s else Some (Inr (None, s))) of
                None \<Rightarrow> None
              | Some (Inl f) \<Rightarrow> Some (Inl f)
              | Some (Inr (Some e, s1)) \<Rightarrow> Some (Inr (setErr (Some e) s1))
              | Some (Inr (None, s1)) \<Rightarrow> Some (finishParts env s1))))"

definition Close :: "env \<Rightarrow> Writer \<Rightarrow> (error option \<times> Writer) res option" where
  "Close env s =
     (if done_fired s then Some (Inr (getErr s, s))
      else
        (case closeBody env (s\<lparr>done_fired := True\<rparr>) of
           None \<Rightarrow> None
         | Some (Inl f) \<Rightarrow> Some (Inl f)
         | Some (Inr s1) \<Rightarrow> Some (Inr (getErr s1, s1))))"

text \<open>
  A worker goroutine that \<^verbatim>\<open>sendChunk\<close> started and that reaches line 106 only after
  \<^verbatim>\<open>Close\<close> has closed the queue and returned: it is \<^verbatim>\<open>thread\<close> with nothing left to
  receive.
\<close>

definition lateWorker :: "env \<Rightarrow> Writer \<Rightarrow> Writer res option" where
  "lateWorker env s = thread env [] s"

text \<open>
  \<^verbatim>\<open>Close\<close>, then such a worker, then \<^verbatim>\<open>Close\<close> again: the values the two calls return
  and the Writer at the end.
\<close>

definition closeWorkerClose ::
  "env \<Rightarrow> Writer \<Rightarrow> ((error option \<times> error option) \<times> Writer) res option"
where
  "closeWorkerClose env s =
     (case Close env s of
        None \<Rightarrow> None
      | Some (Inl f) \<Rightarrow> Some (Inl f)
      | Some (Inr (r1, s1)) \<Rightarrow>
          (case lateWorker env s1 of
             None \<Rightarrow> None
           | Some (Inl f) \<Rightarrow> Some (Inl f)
           | Some (Inr s2) \<Rightarrow>
               (case Close env s2 of
                  None \<Rightarrow> None
                | Some (Inl f) \<Rightarrow> Some (Inl f)
                | Some (Inr (r2, s3)) \<Rightarrow> Some (Inr ((r1, r2), s3)))))"

subsection \<open>WithAttrs\<close>

text \<open>
  A Go map is a reference: the maps live in a store (a list, the reference is the
  index), each as an association list with distinct keys. \<^verbatim>\<open>make\<close> appends an empty
  map, \<^verbatim>\<open>m[k] = v\<close> updates the map at the reference, \<^verbatim>\<open>range\<close> over a nil map has no
  entries.
\<close>

type_synonym gomap = "(string \<times> string) list"
type_synonym store = "gomap list"

definition mapEntries :: "store \<Rightarrow> mapref option \<Rightarrow> gomap" where
  "mapEntries h r = (case r of None \<Rightarrow> [] | Some a \<Rightarrow> if a < length h then h ! a else [])"

definition mapStore :: "store \<Rightarrow> mapref \<Rightarrow> string \<Rightarrow> string \<Rightarrow> store" where
  "mapStore h r k v = (if r < length h then h[r := AList.update k v (h ! r)] else h)"

text \<open>
  \<^verbatim>\<open>time.Time\<close> of the Go library, as seconds since the Unix epoch and nanoseconds within
  the second. The zero time is January 1 of year 1, and \<^verbatim>\<open>UnixNano\<close> is computed in
  int64.
\<close>

record Time =
  unixSec :: int
  nsec :: int

definition IsZero :: "Time \<Rightarrow> bool" where
  "IsZero t \<longleftrightarrow> unixSec t = - 62135596800 \<and> nsec t = 0"

definition UnixNano :: "Time \<Rightarrow> int" where
  "UnixNano t = wrap64 (unixSec t * 1000000000 + nsec t)"

text \<open>Go's integer division truncates toward zero.\<close>

definition goDiv :: "int \<Rightarrow> int \<Rightarrow> int" where
  "goDiv a b = sgn a * sgn b * (\<bar>a\<bar> div \<bar>b\<bar>)"

text \<open>\<^verbatim>\<open>fmt.Sprintf("%d", x)\<close>.\<close>

function digits :: "int \<Rightarrow> string" where
  "digits n =
     (if n < 10 then [''0123456789'' ! nat n]
      else digits (n div 10) @ [''0123456789'' ! nat (n mod 10)])"
  by pat_completeness auto
termination
  by (relation "measure nat") auto

declare digits.simps [simp del]

definition Sprintf_d :: "int \<Rightarrow> string" where
  "Sprintf_d x = (if x < 0 then CHR ''-'' # digits (- x) else digits x)"

text \<open>The fields of \<^verbatim>\<open>Attrs\<close> (declared outside \<^verbatim>\<open>writer.go\<close>) that \<^verbatim>\<open>WithAttrs\<close> reads.\<close>

record Attrs =
  ContentType :: string
  LastModified :: Time
  Info :: "mapref option"

text \<open>\<^verbatim>\<open>WithAttrs\<close> takes a pointer: \<open>None\<close> is the nil pointer.\<close>

definition WithAttrs :: "Attrs option \<Rightarrow> store \<times> Writer \<Rightarrow> (store \<times> Writer) res" where
  "WithAttrs ao hs =
     (case ao of
        None \<Rightarrow> Inl NilDereference
      | Some attrs \<Rightarrow>
          (case hs of
             (h, s) \<Rightarrow>
               let s1 = s\<lparr>contentType := ContentType attrs\<rparr>;
                   r = length h;
                   h1 = h @ [[]];
                   s2 = s1\<lparr>info := Some r\<rparr>;
                   h2 = fold (\<lambda>(k, v) hh. mapStore hh r k v) (mapEntries h1 (Info attrs)) h1;
                   h3 = (if int (length (mapEntries h2 (info s2))) < 10
                            \<and> \<not> IsZero (LastModified attrs)
                         then mapStore h2 r ''src_last_modified_millis''
                                (Sprintf_d (goDiv (UnixNano (LastModified attrs)) 1000000))
                         else h2)
               in Inr (h3, s2)))"

text \<open>A store whose maps have distinct keys, and a reference that points into it.\<close>

definition wfStore :: "store \<Rightarrow> bool" where
  "wfStore h \<longleftrightarrow> list_all (\<lambda>m. distinct (map fst m)) h"

definition validRef :: "store \<Rightarrow> mapref option \<Rightarrow> bool" where
  "validRef h r \<longleftrightarrow> (case r of None \<Rightarrow> True | Some a \<Rightarrow> a < length h)"

subsection \<open>Concrete values\<close>

text \<open>The Writer with every field of the struct at its Go zero value.\<close>

definition zeroWriter :: Writer where
  "zeroWriter =
     \<lparr>ConcurrentUploads = 0, Resume = False, ChunkSize = 0, contentType = [], info = None,
      csize = 0, cancelCalls = 0, ready = ChanNil, wg = 0, start_fired = False,
      once_fired = False, done_fired = False, file_lf = None, seen = Map.empty, o_f = None,
      name = [], cidx = 0, w = None, err = None, trace = []\<rparr>"

text \<open>
  A toy digest and an environment in which every collaborator succeeds: the error
  \<open>Err ''busy''\<close> is the one the classifier calls retryable.
\<close>

definition hashDemo :: "buffer \<Rightarrow> string" where
  "hashDemo b = (if b = [1, 2, 3] then ''abc'' else ''xyz'')"

definition envOK :: env where
  "envOK =
     \<lparr>hashOf = hashDemo,
      bufWriteErr = (\<lambda>b p. None),
      readerErr = (\<lambda>b. None),
      reupload = (\<lambda>e. e = Some (Err ''busy'')),
      getUploadURL = (\<lambda>n. Inr n),
      uploadFile = (\<lambda>n ue. Inr n),
      startLargeFile = (\<lambda>n. Inr 7),
      listObjects = (\<lambda>n. Inr []),
      listParts = (\<lambda>n lf nxt. Inr ([], 0)),
      compileParts = (\<lambda>lf sz sn. lf),
      selectReady = (\<lambda>n. Accepted),
      waitWorkers = (\<lambda>n. None),
      finishLargeFile = (\<lambda>n lf. Inr 9),
      getUploadPartURL = (\<lambda>n. Inr n),
      uploadPart = (\<lambda>n fc c. (case chunk_buf c of None \<Rightarrow> 0 | Some b \<Rightarrow> Len b, None))\<rparr>"

text \<open>
  A sequential caller: the byte slices are written one after the other, stopping at the
  first \<^verbatim>\<open>Write\<close> that returns an error.
\<close>

fun writeAll :: "env \<Rightarrow> buffer list \<Rightarrow> Writer \<Rightarrow> (error option \<times> Writer) res option" where
  "writeAll env [] s = Some (Inr (None, s))"
| "writeAll env (p # ps) s =
     (case Write env p s of
        None \<Rightarrow> None
      | Some (Inl f) \<Rightarrow> Some (Inl f)
      | Some (Inr ((n, Some e), s1)) \<Rightarrow> Some (Inr (Some e, s1))
      | Some (Inr ((n, None), s1)) \<Rightarrow> writeAll env ps s1)"

text \<open>The chunks handed to the worker pool, in the order of their hand-off.\<close>

fun handoffs :: "event list \<Rightarrow> chunk list" where
  "handoffs [] = []"
| "handoffs (EvHandOff c # es) = c # handoffs es"
| "handoffs (_ # es) = handoffs es"

text \<open>The whole-object uploads issued, and the sleeps, in order.\<close>

fun uploadFiles :: "event list \<Rightarrow> buffer list" where
  "uploadFiles [] = []"
| "uploadFiles (EvUploadFile ue b n nm ct sha mi # es) = b # uploadFiles es"
| "uploadFiles (_ # es) = uploadFiles es"

fun sleeps :: "event list \<Rightarrow> int list" where
  "sleeps [] = []"
| "sleeps (EvSleep d # es) = d # sleeps es"
| "sleeps (_ # es) = sleeps es"

text \<open>Bytes carried by a chunk (none for a nil buffer).\<close>

definition chunkBytes :: "chunk \<Rightarrow> buffer" where
  "chunkBytes c = (case chunk_buf c of None \<Rightarrow> [] | Some b \<Rightarrow> b)"

text \<open>
  What starting the worker pool leaves alone: the accumulator, the chunk index, the
  stored error, the one-shot flags of \<^verbatim>\<open>Write\<close> and \<^verbatim>\<open>Close\<close>, and the hand-offs and
  uploads issued so far.
\<close>

definition frame :: "Writer \<Rightarrow> Writer \<Rightarrow> bool" where
  "frame s s' \<longleftrightarrow>
     csize s' = csize s \<and> start_fired s' = start_fired s \<and> done_fired s' = done_fired s
     \<and> cidx s' = cidx s \<and> w s' = w s \<and> err s' = err s \<and> cancelCalls s' = cancelCalls s
     \<and> o_f s' = o_f s
     \<and> handoffs (trace s') = handoffs (trace s)
     \<and> uploadFiles (trace s') = uploadFiles (trace s)"

text \<open>
  The state of the chunker after bytes \<open>bs\<close> have been accepted with chunk size \<open>C\<close>:
  the chunks handed off so far are numbered from one, each holds \<open>C\<close> bytes, and together
  with the accumulator, which holds fewer than \<open>C\<close> bytes, they are \<open>bs\<close>.
\<close>

definition chunked :: "int \<Rightarrow> buffer \<Rightarrow> Writer \<Rightarrow> bool" where
  "chunked C bs s \<longleftrightarrow>
     start_fired s \<and> csize s = C \<and> err s = None
     \<and> cidx s = int (length (handoffs (trace s)))
     \<and> map chunk_id (handoffs (trace s)) = [1..cidx s]
     \<and> list_all (\<lambda>c. Len (chunkBytes c) = C) (handoffs (trace s))
     \<and> (case w s of
          None \<Rightarrow> False
        | Some b \<Rightarrow> Len b < C \<and> concat (map chunkBytes (handoffs (trace s))) @ b = bs)"

text \<open>
  An environment in which nothing fails: buffer writes succeed, a large file can be
  started and finished, every hand-off is accepted and no worker reports an error.
\<close>

definition healthy :: "env \<Rightarrow> bool" where
  "healthy env \<longleftrightarrow>
     (\<forall>b p. bufWriteErr env b p = None)
     \<and> (\<forall>n. \<exists>lf. startLargeFile env n = Inr lf)
     \<and> (\<forall>n. selectReady env n = Accepted)
     \<and> (\<forall>n. waitWorkers env n = None)
     \<and> (\<forall>n lf. \<exists>f. finishLargeFile env n lf = Inr f)"

text \<open>
  The worker pool is either running (queue open, large file at hand) or not started yet,
  in which case no chunk has been handed off and no resume is requested.
\<close>

definition poolOK :: "Writer \<Rightarrow> bool" where
  "poolOK s \<longleftrightarrow>
     (if once_fired s then ready s = ChanOpen \<and> file_lf s \<noteq> None
      else \<not> Resume s \<and> cidx s = 0)"

text \<open>The Writer a call leaves behind (the zero Writer when the call did not return).\<close>

definition stateOf :: "('a \<times> Writer) res option \<Rightarrow> Writer" where
  "stateOf r = (case r of Some (Inr (e, s)) \<Rightarrow> s | _ \<Rightarrow> zeroWriter)"

text \<open>The error a call returned, if it returned.\<close>

definition resultOf :: "('a \<times> Writer) res option \<Rightarrow> 'a res option" where
  "resultOf r = map_option (map_sum id fst) r"

text \<open>
  A run used as an example: chunk size two, five bytes written in three slices, then
  \<^verbatim>\<open>Close\<close>.
\<close>

definition demoWriter :: Writer where
  "demoWriter = zeroWriter\<lparr>ChunkSize := 2\<rparr>"

definition demoSlices :: "buffer list" where
  "demoSlices = [[1], [2, 3], [4, 5]]"

definition demoWritten :: Writer where
  "demoWritten = stateOf (writeAll envOK demoSlices demoWriter)"

definition demoClosed :: Writer where
  "demoClosed = stateOf (Close envOK demoWritten)"

text \<open>
  An environment that answers an upload with the retryable error as long as fewer than
  four events have been recorded, and a
  Writer that has accepted three bytes with the default chunk size.
\<close>

definition envBusy :: env where
  "envBusy =
     envOK\<lparr>uploadFile := (\<lambda>n ue. if n < 4 then Inl (Err ''busy'') else Inr n),
           uploadPart := (\<lambda>n fc c. if n < 4 then (0, Some (Err ''busy''))
                                    else (case chunk_buf c of None \<Rightarrow> 0 | Some b \<Rightarrow> Len b, None))\<rparr>"

definition smallWritten :: Writer where
  "smallWritten = stateOf (writeAll envOK [[1, 2, 3]] zeroWriter)"

text \<open>A Writer with chunk size four that has accepted exactly four bytes.\<close>

definition exactWritten :: Writer where
  "exactWritten = stateOf (writeAll envOK [[1, 2], [3, 4]] (zeroWriter\<lparr>ChunkSize := 4\<rparr>))"

text \<open>A Writer resuming an upload whose part 1 is stored with digest \<open>''abc''\<close>.\<close>

definition resumedWriter :: Writer where
  "resumedWriter = zeroWriter\<lparr>seen := [1 \<mapsto> ''abc''], file_lf := Some 7, ready := ChanOpen\<rparr>"

text \<open>The sleep before the retry number \<open>k\<close> (counted from zero), in nanoseconds.\<close>

definition backoff :: "nat \<Rightarrow> int" where
  "backoff k = min (Millisecond * 15 * 2 ^ k) (Second * 15)"

text \<open>
  The retry policy in the words of the spec, looking at no more than \<open>n\<close> attempts: upload
  the chunk; on success go on with the next chunk; on a failure the classifier does not
  call retryable store the error and stop; otherwise sleep \<open>backoff k\<close>, get a fresh
  endpoint (on failure store that error and stop) and try again.
\<close>

fun retrySpec ::
  "env \<Rightarrow> chunk \<Rightarrow> buffer \<Rightarrow> endpoint \<Rightarrow> nat \<Rightarrow> nat \<Rightarrow> Writer \<Rightarrow> ((loop_ctl \<times> endpoint) \<times> Writer) option"
where
  "retrySpec env c b fc k 0 s = None"
| "retrySpec env c b fc k (Suc n) s =
     (case uploadPart env (tick s) fc c of
        (m, e) \<Rightarrow>
          let s1 = logEv (EvUploadPart fc (chunk_id c)) s in
          if m = Len b \<and> e = None then Some ((Continue, fc), s1)
          else if \<not> reupload env e then Some ((Return, fc), setErr e s1)
          else
            let s2 = logEv (EvSleep (backoff k)) s1 in
            (case getUploadPartURL env (tick s2) of
               Inl e2 \<Rightarrow> Some ((Return, fc), setErr (Some e2) (logEv EvGetUploadPartURL s2))
             | Inr f \<Rightarrow> retrySpec env c b f (Suc k) n (logEv EvGetUploadPartURL s2)))"

text \<open>
  An environment in which every upload of the chunk fails with a retryable error and a
  fresh endpoint is always available.
\<close>

definition alwaysRetryable :: "env \<Rightarrow> chunk \<Rightarrow> buffer \<Rightarrow> bool" where
  "alwaysRetryable env c b \<longleftrightarrow>
     (\<forall>t fc. (fst (uploadPart env t fc c) \<noteq> Len b \<or> snd (uploadPart env t fc c) \<noteq> None)
            \<and> reupload env (snd (uploadPart env t fc c)))
     \<and> (\<forall>t. \<exists>f. getUploadPartURL env t = Inr f)"

text \<open>
  An environment in which the upload fails with the retryable error and no fresh endpoint
  can be had (that request fails with the same error), and one in which the upload always
  fails with the retryable error.
\<close>

definition envNoEndpoint :: env where
  "envNoEndpoint =
     envOK\<lparr>uploadPart := (\<lambda>n fc c. (0, Some (Err ''busy''))),
           getUploadPartURL := (\<lambda>n. Inl (Err ''busy''))\<rparr>"

definition envAlwaysBusy :: env where
  "envAlwaysBusy = envOK\<lparr>uploadPart := (\<lambda>n fc c. (0, Some (Err ''busy'')))\<rparr>"



text \<open>A caller's store with one map of one entry and one of ten, and attributes.\<close>

definition demoStore :: store where
  "demoStore =
     [[(''a'', ''1'')],
      [(''k0'', ''v''), (''k1'', ''v''), (''k2'', ''v''), (''k3'', ''v''), (''k4'', ''v''),
       (''k5'', ''v''), (''k6'', ''v''), (''k7'', ''v''), (''k8'', ''v''), (''k9'', ''v'')]]"

definition demoAttrs :: Attrs where
  "demoAttrs =
     \<lparr>ContentType = ''text/plain'',
      LastModified = \<lparr>unixSec = 1500000000, nsec = 123456789\<rparr>,
      Info = Some 0\<rparr>"

text \<open>
  Two workers are asked for, two bytes fill the one chunk, and the environment has no
  upload URL left for a worker that asks once seven events have been recorded (that is,
  after \<^verbatim>\<open>Close\<close> has finished the large file).
\<close>

definition envLate :: env where
  "envLate = envOK\<lparr>getUploadPartURL := (\<lambda>n. if n < 7 then Inr n else Inl (Err ''no upload url''))\<rparr>"

definition raceWritten :: Writer where
  "raceWritten = stateOf (writeAll envLate [[1, 2]] (zeroWriter\<lparr>ConcurrentUploads := 2, ChunkSize := 2\<rparr>))"

section \<open>Properties\<close>

subsection \<open>The error sink\<close>

lemma setErr_None [simp]: "setErr None s = s"
  by (simp add: setErr_def)

lemma setErr_stored [simp]: "err s = Some y \<Longrightarrow> setErr e s = s"
  by (simp add: setErr_def split: option.splits)

lemma setErr_fresh: "err s = None \<Longrightarrow> setErr (Some x) s = s\<lparr>cancelCalls := cancelCalls s + 1, err := Some x\<rparr>"
  by (simp add: setErr_def)

lemma fold_setErr_stored: "err s = Some y \<Longrightarrow> fold setErr es s = s"
  by (induction es) simp_all

lemma fold_setErr_fresh:
  "err s = None \<Longrightarrow>
     fold setErr es s =
       (case firstErr es of None \<Rightarrow> s
        | Some x \<Rightarrow> s\<lparr>cancelCalls := cancelCalls s + 1, err := Some x\<rparr>)"
proof (induction es rule: firstErr.induct)
  case 1
  then show ?case by simp
next
  case (2 es)
  then show ?case by simp
next
  case (3 x es)
  then show ?case by (simp add: setErr_fresh fold_setErr_stored)
qed

text \<open>
  C4. \<^verbatim>\<open>setErr(nil)\<close> changes nothing. On a Writer with no stored error, \<^verbatim>\<open>setErr(x)\<close>
  stores \<open>x\<close> and calls \<^verbatim>\<open>cancel\<close> once; on a Writer with a stored error every
  \<^verbatim>\<open>setErr\<close> changes nothing. \<^verbatim>\<open>cancel\<close> is called by a \<^verbatim>\<open>setErr\<close> exactly when that
  call stores the first error. After any sequence of \<^verbatim>\<open>setErr\<close> calls \<^verbatim>\<open>getErr\<close> returns
  the first non-nil argument and \<^verbatim>\<open>cancel\<close> has been called at most once; \<^verbatim>\<open>getErr\<close>
  returns the stored error.
\<close>

theorem C4_setErr_first_writer_wins:
  "setErr None s = s
   \<and> (err s = None \<longrightarrow> setErr (Some x) s = s\<lparr>cancelCalls := cancelCalls s + 1, err := Some x\<rparr>)
   \<and> (err s \<noteq> None \<longrightarrow> setErr e s = s)
   \<and> ((cancelCalls (setErr e s) = cancelCalls s + 1) = (err s = None \<and> e \<noteq> None))
   \<and> ((cancelCalls (setErr e s) = cancelCalls s) = (\<not> (err s = None \<and> e \<noteq> None)))
   \<and> getErr s = err s
   \<and> (err s = None \<longrightarrow>
        getErr (fold setErr es s) = firstErr es
        \<and> cancelCalls (fold setErr es s) = cancelCalls s + (if firstErr es = None then 0 else 1))
   \<and> (err s \<noteq> None \<longrightarrow> fold setErr es s = s)"
  by (cases e; cases "err s")
     (auto simp: setErr_fresh getErr_def fold_setErr_fresh fold_setErr_stored split: option.splits)

theorem C4_setErr_first_writer_wins_witness:
  "getErr (fold setErr [None, Some (Err ''a''), None, Some (Err ''b'')] zeroWriter) = Some (Err ''a'')
   \<and> cancelCalls (fold setErr [None, Some (Err ''a''), None, Some (Err ''b'')] zeroWriter) = 1
   \<and> setErr (Some (Err ''b'')) (setErr (Some (Err ''a'')) zeroWriter) = setErr (Some (Err ''a'')) zeroWriter"
  using C4_setErr_first_writer_wins [of zeroWriter "Err ''a''" "Some (Err ''a'')" "[None, Some (Err ''a''), None, Some (Err ''b'')]"]
        C4_setErr_first_writer_wins [of "setErr (Some (Err ''a'')) zeroWriter" "Err ''b''" "Some (Err ''b'')" "[]"]
  by (simp add: zeroWriter_def setErr_def)

subsection \<open>Chunking\<close>

lemma handoffs_append [simp]: "handoffs (xs @ ys) = handoffs xs @ handoffs ys"
  by (induction xs rule: handoffs.induct) simp_all

lemma uploadFiles_append [simp]: "uploadFiles (xs @ ys) = uploadFiles xs @ uploadFiles ys"
  by (induction xs rule: uploadFiles.induct) simp_all

lemma sleeps_append [simp]: "sleeps (xs @ ys) = sleeps xs @ sleeps ys"
  by (induction xs rule: sleeps.induct) simp_all

lemma handoffs_replicate_thread [simp]: "handoffs (replicate n EvThread) = []"
  by (induction n) simp_all

lemma uploadFiles_replicate_thread [simp]: "uploadFiles (replicate n EvThread) = []"
  by (induction n) simp_all

lemma logEv_fields [simp]:
  "trace (logEv e s) = trace s @ [e]"
  "tick (logEv e s) = Suc (tick s)"
  "ConcurrentUploads (logEv e s) = ConcurrentUploads s"
  "Resume (logEv e s) = Resume s"
  "ChunkSize (logEv e s) = ChunkSize s"
  "contentType (logEv e s) = contentType s"
  "info (logEv e s) = info s"
  "csize (logEv e s) = csize s"
  "cancelCalls (logEv e s) = cancelCalls s"
  "ready (logEv e s) = ready s"
  "wg (logEv e s) = wg s"
  "start_fired (logEv e s) = start_fired s"
  "once_fired (logEv e s) = once_fired s"
  "done_fired (logEv e s) = done_fired s"
  "file_lf (logEv e s) = file_lf s"
  "seen (logEv e s) = seen s"
  "o_f (logEv e s) = o_f s"
  "name (logEv e s) = name s"
  "cidx (logEv e s) = cidx s"
  "w (logEv e s) = w s"
  "err (logEv e s) = err s"
  by (simp_all add: logEv_def tick_def)

lemma setErr_fields [simp]:
  "trace (setErr e s) = trace s"
  "tick (setErr e s) = tick s"
  "ConcurrentUploads (setErr e s) = ConcurrentUploads s"
  "Resume (setErr e s) = Resume s"
  "ChunkSize (setErr e s) = ChunkSize s"
  "contentType (setErr e s) = contentType s"
  "info (setErr e s) = info s"
  "csize (setErr e s) = csize s"
  "ready (setErr e s) = ready s"
  "wg (setErr e s) = wg s"
  "start_fired (setErr e s) = start_fired s"
  "once_fired (setErr e s) = once_fired s"
  "done_fired (setErr e s) = done_fired s"
  "file_lf (setErr e s) = file_lf s"
  "seen (setErr e s) = seen s"
  "o_f (setErr e s) = o_f s"
  "name (setErr e s) = name s"
  "cidx (setErr e s) = cidx s"
  "w (setErr e s) = w s"
  by (simp_all add: setErr_def tick_def split: option.splits)

lemma frame_refl [simp]: "frame s s"
  by (simp add: frame_def)

lemma frame_trans: "frame s s1 \<Longrightarrow> frame s1 s2 \<Longrightarrow> frame s s2"
  by (simp add: frame_def)

lemma frame_startFresh: "startFresh env s = (r, s') \<Longrightarrow> frame s s'"
  by (auto simp: startFresh_def frame_def logEv_def Let_def)

lemma frame_resumeLoop:
  assumes "resumeLoop env nxt sn sz s = Some y"
  shows "frame s (snd y)"
  using assms
proof (induction env nxt sn sz s y rule: resumeLoop.raw_induct[rotated 1, consumes 1, case_names step])
  case (step rl env nxt sn sz s y)
  note 1 = step
  show ?case
  proof (cases "listObjects env (tick s)")
    case (Inl e)
    with 1(2) show ?thesis by (auto simp: frame_def logEv_def)
  next
    case (Inr objs)
    note objs = this
    let ?s1 = "logEv (EvListObjects (name s)) s"
    have f1: "frame s (?s1\<lparr>Resume := False\<rparr>)" by (simp add: frame_def logEv_def)
    show ?thesis
    proof (cases "objs = [] \<or> obj_name (hd objs) \<noteq> name s")
      case True
      with 1(2) objs have "startFresh env (?s1\<lparr>Resume := False\<rparr>) = y"
        by (auto simp: Let_def logEv_def split: list.splits)
      then have "frame (?s1\<lparr>Resume := False\<rparr>) (snd y)"
        by (metis frame_startFresh prod.collapse)
      with f1 show ?thesis by (rule frame_trans)
    next
      case False
      then obtain ob rest where ob: "objs = ob # rest" "obj_name ob = name s"
        by (cases objs) auto
      show ?thesis
      proof (cases "listParts env (tick ?s1) (obj_f ob) nxt")
        case (Inl e)
        with 1(2) objs ob show ?thesis by (auto simp: frame_def logEv_def Let_def)
      next
        case (Inr pn)
        obtain parts n where pn: "pn = (parts, n)" by (cases pn)
        let ?s2 = "logEv (EvListParts (obj_f ob) nxt) ?s1"
        have f2: "frame s ?s2" by (simp add: frame_def logEv_def)
        show ?thesis
        proof (cases "length parts = 0 \<or> n = 0")
          case True
          with 1(2) objs ob Inr pn show ?thesis
            by (auto simp: frame_def logEv_def Let_def)
        next
          case False
          with 1(2) objs ob Inr pn obtain sn' sz' where "rl env n sn' sz' ?s2 = Some y"
            by (auto simp: Let_def)
          then have "frame ?s2 (snd y)" by (rule 1(1))
          with f2 show ?thesis by (rule frame_trans)
        qed
      qed
    qed
  qed
qed


lemma frame_getLargeFile: "getLargeFile env s = Some (r, s') \<Longrightarrow> frame s s'"
  using frame_resumeLoop [of env 1 Map.empty 0 s "(r, s')"] frame_startFresh [of env s r s']
  by (auto simp: getLargeFile_def split: if_splits)

lemma frame_spawnThreads [simp]: "frame s (spawnThreads n s)"
  by (simp add: frame_def spawnThreads_def)

lemma frame_onceBody:
  assumes "onceBody env s = Some (r, s')"
  shows "frame s s'"
proof (cases "once_fired s")
  case True
  with assms show ?thesis by (simp add: onceBody_def)
next
  case False
  with assms obtain g s1 where g: "getLargeFile env (s\<lparr>once_fired := True\<rparr>) = Some (g, s1)"
    by (auto simp: onceBody_def split: option.splits)
  then have "frame (s\<lparr>once_fired := True\<rparr>) s1" by (rule frame_getLargeFile)
  then have f1: "frame s s1" by (simp add: frame_def)
  show ?thesis
  proof (cases g)
    case (Inl e)
    with assms False g f1 show ?thesis by (simp add: onceBody_def)
  next
    case (Inr lf)
    with assms False g have "s' = spawnThreads (ConcurrentUploads (if ConcurrentUploads s1 < 1 then s1\<lparr>file_lf := Some lf, ready := ChanOpen, ConcurrentUploads := 1\<rparr> else s1\<lparr>file_lf := Some lf, ready := ChanOpen\<rparr>)) (if ConcurrentUploads s1 < 1 then s1\<lparr>file_lf := Some lf, ready := ChanOpen, ConcurrentUploads := 1\<rparr> else s1\<lparr>file_lf := Some lf, ready := ChanOpen\<rparr>)"
      by (simp add: onceBody_def Let_def)
    then have "frame s1 s'" by (simp add: frame_def spawnThreads_def)
    with f1 show ?thesis by (rule frame_trans)
  qed
qed

lemma sendChunk_ok:
  assumes "sendChunk env s = Some (Inr (None, s'))"
  shows "handoffs (trace s') = handoffs (trace s) @ [Chunk (cidx s + 1) (w s)]
         \<and> cidx s' = cidx s + 1 \<and> w s' = Some [] \<and> csize s' = csize s
         \<and> start_fired s' = start_fired s \<and> done_fired s' = done_fired s
         \<and> err s' = err s \<and> uploadFiles (trace s') = uploadFiles (trace s)
         \<and> ready s' = ChanOpen"
proof -
  from assms obtain s1 where ob: "onceBody env s = Some (None, s1)"
    by (auto simp: sendChunk_def split: option.splits)
  then have f: "frame s s1" by (rule frame_onceBody)
  from assms ob have s': "s' = (logEv (EvHandOff (Chunk (cidx s1 + 1) (w s1))) s1)\<lparr>cidx := cidx s1 + 1, w := Some newMemoryBuffer\<rparr>"
    and r: "ready s1 = ChanOpen"
    by (auto simp: sendChunk_def Let_def split: select_outcome.splits chan.splits)
  from f r show ?thesis unfolding s' by (simp add: frame_def newMemoryBuffer_def)
qed

lemma startOnce_started [simp]: "start_fired s \<Longrightarrow> startOnce s = s"
  by (simp add: startOnce_def)

lemma upto_snoc: "0 \<le> k \<Longrightarrow> [1..k + 1] = [1..k] @ [k + 1]"
  by (simp add: upto_rec2)

lemma Write_chunked:
  "chunked C bs s \<Longrightarrow> 0 < C \<Longrightarrow> Write env p s = Some (Inr ((n, None), s')) \<Longrightarrow>
     chunked C (bs @ p) s' \<and> n = Len p \<and> uploadFiles (trace s') = uploadFiles (trace s)
     \<and> done_fired s' = done_fired s"
proof (induction "length p" arbitrary: p s bs n s' rule: less_induct)
  case less
  from less.prems(1) obtain b where
    st: "start_fired s" "csize s = C" "err s = None" and b: "w s = Some b" "Len b < C"
    and ids: "cidx s = int (length (handoffs (trace s)))" "map chunk_id (handoffs (trace s)) = [1..cidx s]"
    and full: "list_all (\<lambda>c. Len (chunkBytes c) = C) (handoffs (trace s))"
    and cat: "concat (map chunkBytes (handoffs (trace s))) @ b = bs"
    by (auto simp: chunked_def split: option.splits)
  let ?left = "C - Len b"
  have left: "0 < ?left" using b by simp
  note W = less.prems(3) [unfolded Write.simps [of env p s]]
  show ?case
  proof (cases "Len p < ?left")
    case True
    with W st b have "bufWrite env b p s = ((n, None), s')"
      by (simp add: getErr_def Let_def)
    then have "n = Len p" "s' = s\<lparr>w := Some (b @ p)\<rparr>"
      by (auto simp: bufWrite_def split: option.splits)
    with True st b ids full cat show ?thesis
      by (simp add: chunked_def Len_def)
  next
    case False
    then have ge: "?left \<le> Len p" by simp
    have tk: "Len (take (nat ?left) p) = ?left"
      using ge left by (simp add: Len_def)
    from W st b False left
    have W2: "(case bufWrite env b (take (nat ?left) p) s of
                 ((i, Some e), s2) \<Rightarrow> Some (Inr ((i, Some e), setErr (Some e) s2))
               | ((i, None), s2) \<Rightarrow>
                   (case sendChunk env s2 of
                      None \<Rightarrow> None
                    | Some (Inl f) \<Rightarrow> Some (Inl f)
                    | Some (Inr (Some e, s3)) \<Rightarrow>
                        let s4 = setErr (Some e) s3 in Some (Inr ((i, getErr s4), s4))
                    | Some (Inr (None, s3)) \<Rightarrow>
                        Option.bind (Write env (drop (nat ?left) p) s3)
                          (\<lambda>r. case r of
                                 Inl f \<Rightarrow> Some (Inl f)
                               | Inr ((k, e2), s5) \<Rightarrow> Some (Inr ((i + k, e2), setErr e2 s5)))))
               = Some (Inr ((n, None), s'))"
      by (simp add: getErr_def Let_def)
    let ?s2 = "s\<lparr>w := Some (b @ take (nat ?left) p)\<rparr>"
    from W2 have bw: "bufWrite env b (take (nat ?left) p) s = ((?left, None), ?s2)"
      using tk by (auto simp: bufWrite_def split: option.splits)
    from W2 bw obtain s3 where sc: "sendChunk env ?s2 = Some (Inr (None, s3))"
      by (auto simp: getErr_def setErr_def Let_def split: option.splits sum.splits if_splits)
    from W2 bw sc obtain r where r: "Write env (drop (nat ?left) p) s3 = Some r"
      and r2: "(case r of
                 Inl f \<Rightarrow> Some (Inl f)
               | Inr ((k, e2), s5) \<Rightarrow> Some (Inr ((?left + k, e2), setErr e2 s5)))
               = Some (Inr ((n, None), s'))"
      by (auto simp: bind_eq_Some_conv)
    consider f where "r = Inl f" | k e2 s5 where "r = Inr ((k, e2), s5)"
      by (cases r) auto
    then obtain k where rk: "r = Inr ((k, None), s')" and n: "n = ?left + k"
      using r2 by cases auto
    from r rk have rec: "Write env (drop (nat ?left) p) s3 = Some (Inr ((k, None), s'))"
      by simp
    note ok = sendChunk_ok [OF sc]
    have ch3: "chunked C (bs @ take (nat ?left) p) s3"
      using ok st b ids full cat tk left
      by (simp add: chunked_def chunkBytes_def upto_snoc Len_def)
    have shorter: "length (drop (nat ?left) p) < length p"
      using ge left by (simp add: Len_def)
    from less.hyps [OF shorter ch3 less.prems(2) rec]
    have "chunked C ((bs @ take (nat ?left) p) @ drop (nat ?left) p) s'"
      and "k = Len (drop (nat ?left) p)"
      and "uploadFiles (trace s') = uploadFiles (trace s3)"
      and "done_fired s' = done_fired s3"
      by simp_all
    with ok n ge left show ?thesis
      by (simp add: Len_def)
  qed
qed


lemma startOnce_fields [simp]:
  "start_fired (startOnce s)" "err (startOnce s) = err s" "trace (startOnce s) = trace s"
  "cidx (startOnce s) = cidx s" "done_fired (startOnce s) = done_fired s"
  by (simp_all add: startOnce_def Let_def)

lemma Write_startOnce: "err s = None \<Longrightarrow> Write env p (startOnce s) = Write env p s"
  by (simp add: Write.simps [of env p s] Write.simps [of env p "startOnce s"] getErr_def)

lemma chunked_fresh:
  assumes "\<not> start_fired s" "err s = None" "cidx s = 0" "handoffs (trace s) = []"
    and "C = (if ChunkSize s = 0 then 100000000 else ChunkSize s)" "0 < C"
  shows "chunked C [] (startOnce s)"
  using assms by (simp add: chunked_def startOnce_def Let_def newMemoryBuffer_def Len_def)

lemma writeAll_chunked:
  "chunked C bs s \<Longrightarrow> 0 < C \<Longrightarrow> writeAll env ps s = Some (Inr (None, s')) \<Longrightarrow>
     chunked C (bs @ concat ps) s' \<and> uploadFiles (trace s') = uploadFiles (trace s)
     \<and> done_fired s' = done_fired s"
proof (induction ps arbitrary: s bs)
  case Nil
  then show ?case by simp
next
  case (Cons p ps)
  from Cons.prems(3) obtain n s1 where
    w1: "Write env p s = Some (Inr ((n, None), s1))" and rest: "writeAll env ps s1 = Some (Inr (None, s'))"
    by (auto split: option.splits sum.splits prod.splits)
  from Write_chunked [OF Cons.prems(1,2) w1]
  have c1: "chunked C (bs @ p) s1" and u1: "uploadFiles (trace s1) = uploadFiles (trace s)"
    and d1: "done_fired s1 = done_fired s"
    by simp_all
  from Cons.IH [OF c1 Cons.prems(2) rest] u1 d1 show ?case by simp
qed

lemma writeAll_startOnce:
  "ps \<noteq> [] \<Longrightarrow> err s = None \<Longrightarrow> writeAll env ps (startOnce s) = writeAll env ps s"
  by (cases ps) (simp_all add: Write_startOnce)

lemma length_concat_full:
  "list_all (\<lambda>c. Len (chunkBytes c) = C) hs \<Longrightarrow>
     int (length (concat (map chunkBytes hs))) = int (length hs) * C"
  by (induction hs) (simp_all add: Len_def algebra_simps)

lemma chunked_count:
  assumes "chunked C bs s" "0 < C" "w s = Some b"
  shows "int (length (handoffs (trace s))) = int (length bs) div C"
    and "Len b = int (length bs) mod C"
proof -
  from assms have full: "list_all (\<lambda>c. Len (chunkBytes c) = C) (handoffs (trace s))"
    and lt: "Len b < C" and cat: "concat (map chunkBytes (handoffs (trace s))) @ b = bs"
    by (auto simp: chunked_def)
  have "int (length bs) = int (length (handoffs (trace s))) * C + Len b"
    using length_concat_full [OF full] cat by (auto simp: Len_def)
  moreover have "0 \<le> Len b" by (simp add: Len_def)
  ultimately show "int (length (handoffs (trace s))) = int (length bs) div C"
    and "Len b = int (length bs) mod C"
    using lt assms(2) by (simp_all add: div_pos_pos_trivial mod_pos_pos_trivial)
qed

lemma finishParts_ok:
  assumes "finishParts env s1 = Inr s'"
  shows "handoffs (trace s') = handoffs (trace s1) \<and> uploadFiles (trace s') = uploadFiles (trace s1)
         \<and> done_fired s' = done_fired s1 \<and> cidx s' = cidx s1 \<and> w s' = w s1"
  using assms
  by (auto simp: finishParts_def Let_def split: chan.splits option.splits sum.splits)

lemma Close_multipart:
  assumes "\<not> done_fired s" "cidx s \<noteq> 0" "w s = Some b" "Close env s = Some (Inr (None, s2))"
  shows "handoffs (trace s2) =
           handoffs (trace s) @ (if 0 < Len b then [Chunk (cidx s + 1) (Some b)] else [])
         \<and> uploadFiles (trace s2) = uploadFiles (trace s)"
proof -
  let ?s = "s\<lparr>done_fired := True\<rparr>"
  let ?X = "if Len b > 0 then sendChunk env ?s else Some (Inr (None, ?s))"
  from assms(1,4) have cb: "closeBody env ?s = Some (Inr s2)" and e2: "err s2 = None"
    by (auto simp: Close_def getErr_def split: option.splits sum.splits)
  from cb assms(2,3) have cb2:
    "(case ?X of
        None \<Rightarrow> None
      | Some (Inl f) \<Rightarrow> Some (Inl f)
      | Some (Inr (Some e, s1)) \<Rightarrow> Some (Inr (setErr (Some e) s1))
      | Some (Inr (None, s1)) \<Rightarrow> Some (finishParts env s1)) = Some (Inr s2)"
    by (simp add: closeBody_def)
  obtain x where x: "?X = Some x"
    using cb2 by (cases ?X) simp_all
  consider f where "x = Inl f" | e s1 where "x = Inr (Some e, s1)" | sm where "x = Inr (None, sm)"
    by (cases x) (auto, metis option.exhaust)
  then obtain sm where sm: "?X = Some (Inr (None, sm))" and fp: "finishParts env sm = Inr s2"
  proof cases
    case 1
    with cb2 x show ?thesis by simp
  next
    case 2
    with cb2 x have "s2 = setErr (Some e) s1" by simp
    with e2 show ?thesis by (simp add: setErr_def split: if_splits)
  next
    case 3
    with cb2 x that show ?thesis by simp
  qed
  note fin = finishParts_ok [OF fp]
  show ?thesis
  proof (cases "0 < Len b")
    case True
    with sm have "sendChunk env ?s = Some (Inr (None, sm))" by simp
    from sendChunk_ok [OF this] fin True assms(3) show ?thesis by simp
  next
    case False
    with sm have "sm = ?s" by simp
    with fin False show ?thesis by simp
  qed
qed

lemma chunking_of_successful_run:
  assumes fresh: "\<not> start_fired s0" "err s0 = None" "cidx s0 = 0" "handoffs (trace s0) = []"
      "\<not> done_fired s0"
    and C: "C = (if ChunkSize s0 = 0 then 100000000 else ChunkSize s0)" "0 < C"
    and L: "L = int (length (concat ps))" "C < L"
    and writes: "writeAll env ps s0 = Some (Inr (None, s1))"
    and close: "Close env s1 = Some (Inr (None, s2))"
  shows "int (length (handoffs (trace s1))) = L div C
       \<and> list_all (\<lambda>c. Len (chunkBytes c) = C) (handoffs (trace s1))
       \<and> handoffs (trace s2) =
           handoffs (trace s1) @ (if L mod C \<noteq> 0 then [Chunk (L div C + 1) (w s1)] else [])
       \<and> map chunk_id (handoffs (trace s2)) = [1..(if L mod C \<noteq> 0 then L div C + 1 else L div C)]
       \<and> concat (map chunkBytes (handoffs (trace s2))) = concat ps
       \<and> uploadFiles (trace s2) = uploadFiles (trace s0)"
proof -
  from L C have ne: "ps \<noteq> []" by auto
  have c0: "chunked C [] (startOnce s0)"
    using fresh C by (intro chunked_fresh) simp_all
  from writes have "writeAll env ps (startOnce s0) = Some (Inr (None, s1))"
    using writeAll_startOnce [OF ne fresh(2)] by simp
  from writeAll_chunked [OF c0 C(2) this]
  have c1: "chunked C (concat ps) s1" and u1: "uploadFiles (trace s1) = uploadFiles (trace s0)"
    and d1: "\<not> done_fired s1"
    using fresh by simp_all
  from c1 obtain b where b: "w s1 = Some b"
    and ids: "cidx s1 = int (length (handoffs (trace s1)))"
      "map chunk_id (handoffs (trace s1)) = [1..cidx s1]"
    and full: "list_all (\<lambda>c. Len (chunkBytes c) = C) (handoffs (trace s1))"
    and cat: "concat (map chunkBytes (handoffs (trace s1))) @ b = concat ps"
    by (auto simp: chunked_def split: option.splits)
  note cnt = chunked_count [OF c1 C(2) b, folded L(1)]
  have "0 < L div C"
    using L(2) C(2) by (simp add: pos_imp_zdiv_pos_iff)
  then have k1: "1 \<le> L div C" by simp
  with cnt(1) ids have nz: "cidx s1 \<noteq> 0" and ck: "cidx s1 = L div C" by simp_all
  note cl = Close_multipart [OF d1 nz b close]
  have pos: "(0 < Len b) = (L mod C \<noteq> 0)"
    using cnt(2) C(2) by (simp add: Len_def) (metis Euclidean_Rings.pos_mod_sign less_le)
  have b0: "L mod C = 0 \<longrightarrow> b = []"
    using pos by (simp add: Len_def)
  show ?thesis
    using cl cnt(1) full ids cat b u1 ck pos k1 b0
    by (cases "L mod C = 0") (simp_all add: chunkBytes_def upto_snoc)
qed



lemma healthyD:
  assumes "healthy env"
  shows "bufWriteErr env b p = None" "selectReady env n = Accepted" "waitWorkers env n = None"
    "\<exists>lf. startLargeFile env n = Inr lf" "\<exists>f. finishLargeFile env n lf = Inr f"
  using assms unfolding healthy_def by blast+

lemma sendChunk_healthy:
  assumes "healthy env" "poolOK s"
  shows "\<exists>s'. sendChunk env s = Some (Inr (None, s')) \<and> poolOK s' \<and> once_fired s'"
proof (cases "once_fired s")
  case True
  with assms(2) healthyD(2) [OF assms(1)] show ?thesis
    by (simp add: sendChunk_def onceBody_def poolOK_def Let_def)
next
  case False
  from healthyD(4) [OF assms(1)] obtain lf where lf: "startLargeFile env (tick s) = Inr lf"
    by blast
  with False assms(2) obtain s1 where
    g: "getLargeFile env (s\<lparr>once_fired := True\<rparr>) = Some (Inr lf, s1)" and o1: "once_fired s1"
    by (simp add: getLargeFile_def startFresh_def poolOK_def Let_def tick_def)
  then obtain s3 where ob: "onceBody env s = Some (None, s3)"
    and p3: "once_fired s3" "ready s3 = ChanOpen" "file_lf s3 \<noteq> None"
    using False by (simp add: onceBody_def Let_def spawnThreads_def)
  with healthyD(2) [OF assms(1)] show ?thesis
    by (simp add: sendChunk_def poolOK_def Let_def)
qed

lemma Write_healthy:
  "healthy env \<Longrightarrow> poolOK s \<Longrightarrow> chunked C bs s \<Longrightarrow> 0 < C \<Longrightarrow>
     \<exists>s'. Write env p s = Some (Inr ((Len p, None), s')) \<and> poolOK s'"
proof (induction "length p" arbitrary: p s bs rule: less_induct)
  case less
  from less.prems(3) obtain b where
    st: "start_fired s" "csize s = C" "err s = None" and b: "w s = Some b" "Len b < C"
    by (auto simp: chunked_def split: option.splits)
  let ?left = "C - Len b"
  have left: "0 < ?left" using b by simp
  have bw: "bufWrite env b q s = ((Len q, None), s\<lparr>w := Some (b @ q)\<rparr>)" for q
    using healthyD(1) [OF less.prems(1)] by (simp add: bufWrite_def)
  show ?case
  proof (cases "Len p < ?left")
    case True
    with st b bw less.prems(2) show ?thesis
      by (simp add: Write.simps [of env p s] getErr_def Let_def poolOK_def)
  next
    case False
    then have ge: "?left \<le> Len p" by simp
    have tk: "Len (take (nat ?left) p) = ?left"
      using ge left by (simp add: Len_def)
    let ?s2 = "s\<lparr>w := Some (b @ take (nat ?left) p)\<rparr>"
    have "poolOK ?s2" using less.prems(2) by (simp add: poolOK_def)
    from sendChunk_healthy [OF less.prems(1) this]
    obtain s3 where sc: "sendChunk env ?s2 = Some (Inr (None, s3))" and p3: "poolOK s3"
      by blast
    have pre: "Write env p s = Some (Inr ((n, None), s')) \<Longrightarrow> True" for n s' by simp
    have shorter: "length (drop (nat ?left) p) < length p"
      using ge left by (simp add: Len_def)
    note ok = sendChunk_ok [OF sc]
    have ch3: "chunked C (bs @ take (nat ?left) p) s3"
      using ok less.prems(3) b tk left
      by (simp add: chunked_def chunkBytes_def upto_snoc Len_def)
    from less.hyps [OF shorter less.prems(1) p3 ch3 less.prems(4)]
    obtain s' where rec: "Write env (drop (nat ?left) p) s3 = Some (Inr ((Len (drop (nat ?left) p), None), s'))"
      and p': "poolOK s'" by blast
    have "?left + Len (drop (nat ?left) p) = Len p"
      using ge left by (simp add: Len_def)
    with st b False left bw tk sc rec p' show ?thesis
      by (simp add: Write.simps [of env p s] getErr_def Let_def)
  qed
qed

lemma writeAll_healthy:
  "healthy env \<Longrightarrow> poolOK s \<Longrightarrow> chunked C bs s \<Longrightarrow> 0 < C \<Longrightarrow>
     \<exists>s'. writeAll env ps s = Some (Inr (None, s')) \<and> poolOK s'"
proof (induction ps arbitrary: s bs)
  case Nil
  then show ?case by simp
next
  case (Cons p ps)
  from Write_healthy [OF Cons.prems] obtain s1 where
    w1: "Write env p s = Some (Inr ((Len p, None), s1))" and p1: "poolOK s1"
    by blast
  from Write_chunked [OF Cons.prems(3,4) w1] have c1: "chunked C (bs @ p) s1" by simp
  from Cons.IH [OF Cons.prems(1) p1 c1 Cons.prems(4)] w1 show ?case by simp
qed

lemma Close_healthy:
  assumes "healthy env" "poolOK s" "\<not> done_fired s" "cidx s \<noteq> 0" "w s = Some b" "err s = None"
  shows "\<exists>s2. Close env s = Some (Inr (None, s2))"
proof -
  let ?s = "s\<lparr>done_fired := True\<rparr>"
  have p: "poolOK ?s" "once_fired ?s" using assms(2,4) by (simp_all add: poolOK_def split: if_splits)
  have "\<exists>sm. (if Len b > 0 then sendChunk env ?s else Some (Inr (None, ?s))) = Some (Inr (None, sm))
          \<and> poolOK sm \<and> once_fired sm \<and> err sm = None"
  proof (cases "0 < Len b")
    case True
    from sendChunk_healthy [OF assms(1) p(1)] obtain sm where
      sc: "sendChunk env ?s = Some (Inr (None, sm))" and "poolOK sm" "once_fired sm" by blast
    with sendChunk_ok [OF sc] assms(6) True show ?thesis by simp
  next
    case False
    with p assms(6) show ?thesis by simp
  qed
  then obtain sm where sm: "(if Len b > 0 then sendChunk env ?s else Some (Inr (None, ?s))) = Some (Inr (None, sm))"
    and pm: "ready sm = ChanOpen" "file_lf sm \<noteq> None" "err sm = None"
    by (auto simp: poolOK_def)
  from pm obtain lf where lf: "file_lf sm = Some lf" by auto
  from healthyD(5) [OF assms(1)] obtain f where
    f: "finishLargeFile env (Suc (Suc (tick sm))) lf = Inr f" by blast
  have "finishParts env sm = Inr ((logEv (EvFinishLargeFile lf) (logEv EvWait (logEv EvCloseReady (sm\<lparr>ready := ChanClosed\<rparr>))))\<lparr>o_f := Some f\<rparr>)"
    using pm lf f healthyD(3) [OF assms(1)]
    by (simp add: finishParts_def Let_def tick_def logEv_def)
  then obtain s2 where fp: "finishParts env sm = Inr s2" and "err s2 = None"
    using pm by simp
  with sm assms(4,5) show ?thesis
    by (simp add: Close_def closeBody_def assms(3) getErr_def)
qed


lemma healthy_run_returns:
  assumes fresh: "\<not> start_fired s0" "err s0 = None" "cidx s0 = 0" "handoffs (trace s0) = []"
      "\<not> done_fired s0"
    and C: "C = (if ChunkSize s0 = 0 then 100000000 else ChunkSize s0)" "0 < C"
    and L: "L = int (length (concat ps))" "C < L"
    and env: "healthy env" "\<not> once_fired s0" "\<not> Resume s0"
  shows "\<exists>s1 s2. writeAll env ps s0 = Some (Inr (None, s1)) \<and> Close env s1 = Some (Inr (None, s2))"
proof -
  from L C have ne: "ps \<noteq> []" by auto
  have c0: "chunked C [] (startOnce s0)"
    using fresh C by (intro chunked_fresh) simp_all
  have p0: "poolOK (startOnce s0)"
    using env fresh by (simp add: poolOK_def startOnce_def Let_def)
  from writeAll_healthy [OF env(1) p0 c0 C(2)] obtain s1 where
    w1: "writeAll env ps (startOnce s0) = Some (Inr (None, s1))" and p1: "poolOK s1"
    by blast
  from writeAll_chunked [OF c0 C(2) w1]
  have c1: "chunked C (concat ps) s1" and d1: "\<not> done_fired s1"
    using fresh by simp_all
  from c1 obtain b where b: "w s1 = Some b" and e1: "err s1 = None"
    and ids: "cidx s1 = int (length (handoffs (trace s1)))"
    by (auto simp: chunked_def split: option.splits)
  note cnt = chunked_count [OF c1 C(2) b, folded L(1)]
  have "0 < L div C"
    using L(2) C(2) by (simp add: pos_imp_zdiv_pos_iff)
  with cnt(1) ids have nz: "cidx s1 \<noteq> 0" by simp
  from Close_healthy [OF env(1) p1 d1 nz b e1] w1 writeAll_startOnce [OF ne fresh(2)]
  show ?thesis by auto
qed

text \<open>
  C2. A fresh Writer with chunk size \<open>C\<close> (the default when \<^verbatim>\<open>ChunkSize\<close> is zero) is
  given \<open>L > C\<close> bytes in any number of slices and then closed. If every \<^verbatim>\<open>Write\<close> and
  the \<^verbatim>\<open>Close\<close> return a nil error, then \<open>L div C\<close> chunks of \<open>C\<close> bytes each were handed
  off during the writes, \<^verbatim>\<open>Close\<close> hands off one more chunk (the accumulator) exactly
  when \<open>L mod C \<noteq> 0\<close>, the ids of the chunks are \<open>1, 2, \<dots>\<close> in the order of hand-off,
  the chunks together are the bytes written, and no whole-object upload is issued. In an
  environment where nothing fails, with no resume requested, the calls do return a nil
  error.
\<close>

theorem C2_chunk_count_and_ids:
  assumes fresh: "\<not> start_fired s0" "err s0 = None" "cidx s0 = 0" "handoffs (trace s0) = []"
      "\<not> done_fired s0"
    and C: "C = (if ChunkSize s0 = 0 then 100000000 else ChunkSize s0)" "0 < C"
    and L: "L = int (length (concat ps))" "C < L"
  shows "(writeAll env ps s0 = Some (Inr (None, s1)) \<and> Close env s1 = Some (Inr (None, s2)) \<longrightarrow>
           int (length (handoffs (trace s1))) = L div C
           \<and> list_all (\<lambda>c. Len (chunkBytes c) = C) (handoffs (trace s1))
           \<and> handoffs (trace s2) =
               handoffs (trace s1) @ (if L mod C \<noteq> 0 then [Chunk (L div C + 1) (w s1)] else [])
           \<and> map chunk_id (handoffs (trace s2)) =
               [1..(if L mod C \<noteq> 0 then L div C + 1 else L div C)]
           \<and> concat (map chunkBytes (handoffs (trace s2))) = concat ps
           \<and> uploadFiles (trace s2) = uploadFiles (trace s0))
       \<and> (healthy env \<and> \<not> once_fired s0 \<and> \<not> Resume s0 \<longrightarrow>
           (\<exists>t1 t2. writeAll env ps s0 = Some (Inr (None, t1))
                    \<and> Close env t1 = Some (Inr (None, t2))))"
  using chunking_of_successful_run [OF assms, of env s1 s2] healthy_run_returns [OF assms, of env]
  by blast

lemma healthy_envOK: "healthy envOK"
  by (simp add: healthy_def envOK_def)

theorem C2_chunk_count_and_ids_witness:
  "writeAll envOK demoSlices demoWriter = Some (Inr (None, demoWritten))
   \<and> Close envOK demoWritten = Some (Inr (None, demoClosed))
   \<and> int (length (concat demoSlices)) = 5
   \<and> handoffs (trace demoWritten) = [Chunk 1 (Some [1, 2]), Chunk 2 (Some [3, 4])]
   \<and> handoffs (trace demoClosed) = handoffs (trace demoWritten) @ [Chunk 3 (Some [5])]
   \<and> map chunk_id (handoffs (trace demoClosed)) = [1, 2, 3]
   \<and> uploadFiles (trace demoClosed) = []"
proof -
  have pre: "\<not> start_fired demoWriter" "err demoWriter = None" "cidx demoWriter = 0"
    "handoffs (trace demoWriter) = []" "\<not> done_fired demoWriter"
    "2 = (if ChunkSize demoWriter = 0 then 100000000 else ChunkSize demoWriter)" "(0::int) < 2"
    "5 = int (length (concat demoSlices))" "(2::int) < 5"
    and env: "\<not> once_fired demoWriter" "\<not> Resume demoWriter"
    by (simp_all add: demoWriter_def zeroWriter_def demoSlices_def)
  note T = C2_chunk_count_and_ids [OF pre, of envOK]
  from T [of demoWritten demoClosed] healthy_envOK env
  obtain t1 t2 where t: "writeAll envOK demoSlices demoWriter = Some (Inr (None, t1))"
    "Close envOK t1 = Some (Inr (None, t2))"
    by blast
  then have st: "demoWritten = t1" "demoClosed = t2"
    by (simp_all add: demoWritten_def demoClosed_def stateOf_def)
  have w1: "w demoWritten = Some [5]"
    unfolding demoWritten_def by code_simp
  have h1: "handoffs (trace demoWritten) = [Chunk 1 (Some [1, 2]), Chunk 2 (Some [3, 4])]"
    unfolding demoWritten_def by code_simp
  have u0: "uploadFiles (trace demoWriter) = []"
    by (simp add: demoWriter_def zeroWriter_def)
  from T [of demoWritten demoClosed] t st w1 h1 u0 pre(8) show ?thesis
    by (simp add: upto.simps)
qed

subsection \<open>The worker and a chunk that was stored before\<close>

text \<open>
  C3. A worker dequeues a chunk whose id is in \<^verbatim>\<open>w.seen\<close>. If the digest of the chunk's
  buffer equals the stored one, the chunk is skipped: the Writer and the trace are
  unchanged (no upload call) and the loop goes on with the next chunk. If the digests
  differ, the worker calls \<^verbatim>\<open>setErr\<close> with the mismatch error and returns: the rest of
  the queue is not looked at, nothing is uploaded or retried, and on a Writer without a
  stored error \<^verbatim>\<open>getErr\<close> now returns the mismatch error.
\<close>

theorem C3_seen_chunk_skipped_or_fatal:
  assumes "seen s (chunk_id c) = Some sha" and "chunk_buf c = Some b"
  shows "(hashOf env b = sha \<longrightarrow>
            handleChunk env fc c s = Some (Inr ((Continue, fc), s))
            \<and> threadLoop env fc (c # cs) s = threadLoop env fc cs s)
       \<and> (hashOf env b \<noteq> sha \<longrightarrow>
            handleChunk env fc c s = Some (Inr ((Return, fc), setErr (Some errChunksDontMatch) s))
            \<and> threadLoop env fc (c # cs) s = Some (Inr (setErr (Some errChunksDontMatch) s))
            \<and> trace (setErr (Some errChunksDontMatch) s) = trace s
            \<and> (err s = None \<longrightarrow> getErr (setErr (Some errChunksDontMatch) s) = Some errChunksDontMatch))"
  using assms by (auto simp: handleChunk_def getErr_def setErr_def)

theorem C3_seen_chunk_skipped_or_fatal_witness:
  "handleChunk envOK 0 (Chunk 1 (Some [1, 2, 3])) resumedWriter = Some (Inr ((Continue, 0), resumedWriter))
   \<and> handleChunk envOK 0 (Chunk 1 (Some [9])) resumedWriter
       = Some (Inr ((Return, 0), setErr (Some errChunksDontMatch) resumedWriter))
   \<and> trace (setErr (Some errChunksDontMatch) resumedWriter) = []
   \<and> getErr (setErr (Some errChunksDontMatch) resumedWriter) = Some errChunksDontMatch"
  using C3_seen_chunk_skipped_or_fatal [of resumedWriter "Chunk 1 (Some [1, 2, 3])" "''abc''" "[1, 2, 3]" envOK 0 "[]"]
        C3_seen_chunk_skipped_or_fatal [of resumedWriter "Chunk 1 (Some [9])" "''abc''" "[9]" envOK 0 "[]"]
  by (simp add: resumedWriter_def zeroWriter_def envOK_def hashDemo_def)

subsection \<open>A stream of exactly one chunk size\<close>

text \<open>
  C1, evaluated where it fails. With \<^verbatim>\<open>ChunkSize\<close> four, four bytes are written (in two
  slices) and the Writer is closed, in the environment where nothing fails. The second
  \<^verbatim>\<open>Write\<close> fills the accumulator: \<^verbatim>\<open>len(p) < left\<close> is false when \<^verbatim>\<open>len(p) = left\<close>,
  so the full accumulator is handed off as chunk 1. \<^verbatim>\<open>Close\<close> then finds \<^verbatim>\<open>cidx = 1\<close>,
  takes the large-file path and issues no whole-object upload.
\<close>

theorem C1_exactly_one_chunk_is_handed_off:
  "resultOf (writeAll envOK [[1, 2], [3, 4]] (zeroWriter\<lparr>ChunkSize := 4\<rparr>)) = Some (Inr None)
   \<and> handoffs (trace exactWritten) = [Chunk 1 (Some [1, 2, 3, 4])]
   \<and> cidx exactWritten = 1
   \<and> resultOf (Close envOK exactWritten) = Some (Inr None)
   \<and> uploadFiles (trace (stateOf (Close envOK exactWritten))) = []
   \<and> trace (stateOf (Close envOK exactWritten))
       = [EvStartLargeFile [] ''application/octet-stream'' None, EvThread,
          EvHandOff (Chunk 1 (Some [1, 2, 3, 4])), EvCloseReady, EvWait, EvFinishLargeFile 7]"
  unfolding exactWritten_def by code_simp

subsection \<open>Close on a Writer that was never written to\<close>

lemma Close_nil_buffer_panics:
  assumes "\<not> done_fired s" "cidx s = 0" "w s = None" "getUploadURL env (tick s) = Inr ue"
  shows "Close env s = Some (Inl NilDereference)"
  using assms by (simp add: Close_def closeBody_def simpleWriteFile_def tick_def logEv_def)

lemma Close_returns_getErr: "Close env s = Some (Inr (r, s')) \<Longrightarrow> r = getErr s'"
  by (auto simp: Close_def split: if_splits option.splits sum.splits)

text \<open>
  C7, evaluated where it fails. \<^verbatim>\<open>w.w\<close> is assigned only by \<^verbatim>\<open>Write\<close> (in
  \<^verbatim>\<open>start.Do\<close>) and by \<^verbatim>\<open>sendChunk\<close>. On a Writer on which \<^verbatim>\<open>Write\<close> was never called,
  \<^verbatim>\<open>Close\<close> takes the simple path, gets an upload URL and then calls \<^verbatim>\<open>w.w.Hash()\<close> on
  the nil buffer. After a \<^verbatim>\<open>Write\<close> of zero bytes the same \<^verbatim>\<open>Close\<close> uploads the empty
  object and returns nil.
\<close>

theorem C7_close_before_write_panics:
  "Close envOK zeroWriter = Some (Inl NilDereference)
   \<and> resultOf (Close envOK (stateOf (writeAll envOK [[]] zeroWriter))) = Some (Inr None)
   \<and> uploadFiles (trace (stateOf (Close envOK (stateOf (writeAll envOK [[]] zeroWriter))))) = [[]]"
proof -
  have "Close envOK zeroWriter = Some (Inl NilDereference)"
    by (simp add: Close_def closeBody_def simpleWriteFile_def zeroWriter_def envOK_def tick_def logEv_def)
  moreover have "resultOf (Close envOK (stateOf (writeAll envOK [[]] zeroWriter))) = Some (Inr None)"
    by code_simp
  moreover have "uploadFiles (trace (stateOf (Close envOK (stateOf (writeAll envOK [[]] zeroWriter))))) = [[]]"
    by code_simp
  ultimately show ?thesis by simp
qed

subsection \<open>The two retry loops\<close>

text \<open>
  C8, evaluated where it fails. The environment answers the first two uploads of
  either loop with the retryable error. \<^verbatim>\<open>simpleWriteFile\<close> gets a fresh upload URL and uploads again at
  once: its trace holds no sleep. The worker, given the same answers, sleeps 15 ms
  before it gets a fresh URL.
\<close>

theorem C8_simple_path_does_not_sleep:
  "resultOf (Close envBusy smallWritten) = Some (Inr None)
   \<and> uploadFiles (trace (stateOf (Close envBusy smallWritten))) = [[1, 2, 3], [1, 2, 3], [1, 2, 3]]
   \<and> sleeps (trace (stateOf (Close envBusy smallWritten))) = []
   \<and> resultOf (handleChunk envBusy 0 (Chunk 1 (Some [1, 2, 3])) zeroWriter) = Some (Inr (Continue, 5))
   \<and> trace (stateOf (handleChunk envBusy 0 (Chunk 1 (Some [1, 2, 3])) zeroWriter))
       = [EvUploadPart 0 1, EvSleep 15000000, EvGetUploadPartURL,
          EvUploadPart 2 1, EvSleep 30000000, EvGetUploadPartURL, EvUploadPart 5 1]
   \<and> sleeps (trace (stateOf (handleChunk envBusy 0 (Chunk 1 (Some [1, 2, 3])) zeroWriter)))
       = [15000000, 30000000]"
  unfolding smallWritten_def by code_simp

subsection \<open>The retry loop of the worker\<close>

lemma backoff_bounds: "0 < backoff k" "backoff k \<le> Second * 15"
  by (simp_all add: backoff_def Millisecond_def Second_def)

lemma nextSleep_backoff: "nextSleep (backoff k) = backoff (Suc k)"
proof -
  have b: "0 < backoff k" "backoff k \<le> 15000000000"
    using backoff_bounds [of k] by (simp_all add: Second_def)
  then have wr: "wrap64 (backoff k * 2) = backoff k * 2"
    by (simp add: wrap64_def)
  have "min (backoff k * 2) 15000000000 = backoff (Suc k)"
    by (simp add: backoff_def Millisecond_def Second_def min_def)
  then have "(if 15000000000 < backoff k * 2 then 15000000000 else backoff k * 2) = backoff (Suc k)"
    by (simp add: min_def split: if_splits)
  then show ?thesis
    by (auto simp: nextSleep_def Let_def Second_def wr split: if_splits)
qed

lemma backoff_0: "backoff 0 = Millisecond * 15"
  by (simp add: backoff_def Millisecond_def Second_def)

lemma backoff_mono: "backoff k \<le> backoff (Suc k)"
  by (simp add: backoff_def Millisecond_def Second_def min_def)

lemma backoff_double: "backoff (Suc k) \<le> 2 * backoff k"
  by (simp add: backoff_def Millisecond_def Second_def min_def)

lemma retrySpec_imp_uploadRetry:
  "retrySpec env c b fc k n s = Some y \<Longrightarrow> uploadRetry env c b fc (backoff k) s = Some y"
proof (induction n arbitrary: fc k s)
  case 0
  then show ?case by simp
next
  case (Suc n)
  obtain m e where me: "uploadPart env (tick s) fc c = (m, e)" by (cases "uploadPart env (tick s) fc c")
  show ?case
  proof (cases "m = Len b \<and> e = None")
    case True
    with Suc.prems me show ?thesis
      by (simp add: uploadRetry.simps [of env c b fc "backoff k" s])
  next
    case False
    note fail = this
    show ?thesis
    proof (cases "reupload env e")
      case False
      with Suc.prems me fail show ?thesis
        by (auto simp: uploadRetry.simps [of env c b fc "backoff k" s])
    next
      case True
      show ?thesis
      proof (cases "getUploadPartURL env (Suc (Suc (tick s)))")
        case (Inl e2)
        with Suc.prems me fail True show ?thesis
          by (auto simp: uploadRetry.simps [of env c b fc "backoff k" s] Let_def)
      next
        case (Inr f)
        with Suc.prems me fail True
        have "retrySpec env c b f (Suc k) n
                (logEv EvGetUploadPartURL (logEv (EvSleep (backoff k)) (logEv (EvUploadPart fc (chunk_id c)) s))) = Some y"
          by (auto simp: Let_def)
        from Suc.IH [OF this] me fail True Inr show ?thesis
          by (auto simp: uploadRetry.simps [of env c b fc "backoff k" s] Let_def nextSleep_backoff)
      qed
    qed
  qed
qed

lemma uploadRetry_imp_retrySpec:
  assumes "uploadRetry env c b fc sleep s = Some y"
  shows "sleep = backoff k \<Longrightarrow> \<exists>n. retrySpec env c b fc k n s = Some y"
  using assms
proof (induction env c b fc sleep s y arbitrary: k rule: uploadRetry.raw_induct[rotated 1, consumes 1, case_names step])
  case (step ur env c b fc sleep s y)
  obtain m e where me: "uploadPart env (tick s) fc c = (m, e)" by (cases "uploadPart env (tick s) fc c")
  let ?s1 = "logEv (EvUploadPart fc (chunk_id c)) s"
  let ?s2 = "logEv (EvSleep sleep) ?s1"
  let ?s3 = "logEv EvGetUploadPartURL ?s2"
  show ?case
  proof (cases "m = Len b \<and> e = None")
    case True
    with step(2) me have "retrySpec env c b fc k (Suc 0) s = Some y" by auto
    then show ?thesis by blast
  next
    case False
    note fail = this
    show ?thesis
    proof (cases "reupload env e")
      case False
      with step(2) me fail have "retrySpec env c b fc k (Suc 0) s = Some y" by auto
      then show ?thesis by blast
    next
      case True
      show ?thesis
      proof (cases "getUploadPartURL env (Suc (Suc (tick s)))")
        case (Inl e2)
        with step(2,3) me fail True have "retrySpec env c b fc k (Suc 0) s = Some y"
          by (auto simp: Let_def)
        then show ?thesis by blast
      next
        case (Inr f)
        with step(2) me fail True have "ur env c b f (nextSleep sleep) ?s3 = Some y"
          by (auto simp: Let_def)
        from step(1) [OF this, of "Suc k"] step(3) obtain n where
          "retrySpec env c b f (Suc k) n ?s3 = Some y"
          by (auto simp: nextSleep_backoff)
        with me fail True Inr step(3) have "retrySpec env c b fc k (Suc n) s = Some y"
          by (auto simp: Let_def)
        then show ?thesis by blast
      qed
    qed
  qed
qed

lemma retrySpec_alwaysRetryable:
  "alwaysRetryable env c b \<Longrightarrow> retrySpec env c b fc k n s = None"
proof (induction n arbitrary: fc k s)
  case 0
  then show ?case by simp
next
  case (Suc n)
  obtain m e where me: "uploadPart env (tick s) fc c = (m, e)" by (cases "uploadPart env (tick s) fc c")
  from Suc.prems have "(fst (uploadPart env (tick s) fc c) \<noteq> Len b \<or> snd (uploadPart env (tick s) fc c) \<noteq> None)"
    "reupload env (snd (uploadPart env (tick s) fc c))"
    unfolding alwaysRetryable_def by blast+
  with me have fail: "m \<noteq> Len b \<or> e \<noteq> None" "reupload env e" by simp_all
  from Suc.prems obtain f where f: "getUploadPartURL env (Suc (Suc (tick s))) = Inr f"
    unfolding alwaysRetryable_def by blast
  from me fail f Suc.IH [OF Suc.prems] show ?case
    by (auto simp: Let_def)
qed

lemma retrySpec_sleeps:
  "retrySpec env c b fc k n s = Some (r, s') \<Longrightarrow>
     \<exists>j. sleeps (trace s') = sleeps (trace s) @ map backoff [k..<k + j]"
proof (induction n arbitrary: fc k s)
  case 0
  then show ?case by simp
next
  case (Suc n)
  obtain m e where me: "uploadPart env (tick s) fc c = (m, e)" by (cases "uploadPart env (tick s) fc c")
  let ?s3 = "logEv EvGetUploadPartURL (logEv (EvSleep (backoff k)) (logEv (EvUploadPart fc (chunk_id c)) s))"
  consider (nosleep) "sleeps (trace s') = sleeps (trace s)"
    | (onesleep) "sleeps (trace s') = sleeps (trace s) @ [backoff k]"
    | (more) f where "retrySpec env c b f (Suc k) n ?s3 = Some (r, s')"
    using Suc.prems me by (auto simp: Let_def split: if_splits sum.splits)
  then show ?case
  proof cases
    case nosleep
    then have "sleeps (trace s') = sleeps (trace s) @ map backoff [k..<k + 0]" by simp
    then show ?thesis by blast
  next
    case onesleep
    then have "sleeps (trace s') = sleeps (trace s) @ map backoff [k..<k + 1]" by simp
    then show ?thesis by blast
  next
    case more
    from Suc.IH [OF more] obtain j where
      "sleeps (trace s') = sleeps (trace ?s3) @ map backoff [Suc k..<Suc k + j]" by blast
    then have "sleeps (trace s') = sleeps (trace s) @ map backoff [k..<k + Suc j]"
      by (simp add: upt_rec [of k])
    then show ?thesis by blast
  qed
qed

text \<open>
  C5, where the claim as stated fails. The upload of the chunk fails with the error the
  classifier calls retryable, the worker sleeps 15 ms, and the request for a fresh
  endpoint fails. The worker stores that error and returns after a single attempt:
  neither a success nor a verdict "not retryable" of the classifier ended the loop.
\<close>

theorem C5_stops_without_a_classifier_verdict:
  "reupload envNoEndpoint (snd (uploadPart envNoEndpoint 0 0 (Chunk 1 (Some [1, 2, 3]))))
   \<and> reupload envNoEndpoint (Some (Err ''busy''))
   \<and> resultOf (handleChunk envNoEndpoint 0 (Chunk 1 (Some [1, 2, 3])) zeroWriter) = Some (Inr (Return, 0))
   \<and> trace (stateOf (handleChunk envNoEndpoint 0 (Chunk 1 (Some [1, 2, 3])) zeroWriter))
       = [EvUploadPart 0 1, EvSleep 15000000, EvGetUploadPartURL]
   \<and> err (stateOf (handleChunk envNoEndpoint 0 (Chunk 1 (Some [1, 2, 3])) zeroWriter)) = Some (Err ''busy'')"
  by code_simp


text \<open>
  C5, amended. The \<^verbatim>\<open>redo\<close> loop of the worker, entered with a sleep of 15 ms, returns a
  result exactly when the policy \<open>retrySpec\<close> does within some number of attempts: it
  stops on a successful upload, on a failure the classifier does not call retryable, or
  when no fresh endpoint can be had after a sleep, and on nothing else. There is no
  attempt limit: where every upload fails with a retryable error and a fresh endpoint is
  always available the loop never returns. The sleeps it makes are
  \<open>backoff 0, backoff 1, \<dots>\<close> in this order, where \<open>backoff k\<close> is the smaller of
  \<open>15 ms \<sqdot> 2 ^ k\<close> and 15 s: it starts at 15 ms, never decreases, at most doubles and
  never exceeds 15 s.
\<close>

theorem C5_worker_backoff_and_exits:
  "((uploadRetry env c b fc (Millisecond * 15) s = Some y) = (\<exists>n. retrySpec env c b fc 0 n s = Some y))
   \<and> (alwaysRetryable env c b \<longrightarrow> uploadRetry env c b fc (Millisecond * 15) s = None)
   \<and> (uploadRetry env c b fc (Millisecond * 15) s = Some (r, s') \<longrightarrow>
        (\<exists>j. sleeps (trace s') = sleeps (trace s) @ map backoff [0..<j]))
   \<and> backoff k = min (Millisecond * 15 * 2 ^ k) (Second * 15)
   \<and> backoff 0 = Millisecond * 15
   \<and> backoff k \<le> backoff (Suc k)
   \<and> backoff (Suc k) \<le> 2 * backoff k
   \<and> backoff k \<le> Second * 15"
proof -
  have eq: "(uploadRetry env c b fc (Millisecond * 15) s = Some z) = (\<exists>n. retrySpec env c b fc 0 n s = Some z)" for z
  proof
    assume "uploadRetry env c b fc (Millisecond * 15) s = Some z"
    from uploadRetry_imp_retrySpec [OF this, of 0] show "\<exists>n. retrySpec env c b fc 0 n s = Some z"
      by (simp add: backoff_0)
  next
    assume "\<exists>n. retrySpec env c b fc 0 n s = Some z"
    then obtain n where "retrySpec env c b fc 0 n s = Some z" ..
    from retrySpec_imp_uploadRetry [OF this] show "uploadRetry env c b fc (Millisecond * 15) s = Some z"
      by (simp add: backoff_0)
  qed
  have div: "alwaysRetryable env c b \<longrightarrow> uploadRetry env c b fc (Millisecond * 15) s = None"
  proof
    assume a: "alwaysRetryable env c b"
    show "uploadRetry env c b fc (Millisecond * 15) s = None"
    proof (cases "uploadRetry env c b fc (Millisecond * 15) s")
      case None
      then show ?thesis .
    next
      case (Some z)
      with eq [of z] obtain n where "retrySpec env c b fc 0 n s = Some z" by blast
      with retrySpec_alwaysRetryable [OF a, of fc 0 n s] show ?thesis by simp
    qed
  qed
  have sl: "uploadRetry env c b fc (Millisecond * 15) s = Some (r, s') \<longrightarrow>
        (\<exists>j. sleeps (trace s') = sleeps (trace s) @ map backoff [0..<j])"
  proof
    assume "uploadRetry env c b fc (Millisecond * 15) s = Some (r, s')"
    with eq [of "(r, s')"] obtain n where "retrySpec env c b fc 0 n s = Some (r, s')" by blast
    from retrySpec_sleeps [OF this] show "\<exists>j. sleeps (trace s') = sleeps (trace s) @ map backoff [0..<j]"
      by simp
  qed
  have d: "backoff k = min (Millisecond * 15 * 2 ^ k) (Second * 15)"
    by (fact backoff_def)
  show ?thesis
    by (intro conjI eq div sl d backoff_0 backoff_mono backoff_double backoff_bounds(2))
qed

lemma alwaysRetryable_envAlwaysBusy: "alwaysRetryable envAlwaysBusy c b"
  by (simp add: alwaysRetryable_def envAlwaysBusy_def envOK_def)

theorem C5_worker_backoff_and_exits_witness:
  "alwaysRetryable envAlwaysBusy (Chunk 1 (Some [1, 2, 3])) [1, 2, 3]
   \<and> uploadRetry envAlwaysBusy (Chunk 1 (Some [1, 2, 3])) [1, 2, 3] 0 (Millisecond * 15) zeroWriter = None
   \<and> uploadRetry envBusy (Chunk 1 (Some [1, 2, 3])) [1, 2, 3] 0 (Millisecond * 15) zeroWriter
       = retrySpec envBusy (Chunk 1 (Some [1, 2, 3])) [1, 2, 3] 0 0 3 zeroWriter
   \<and> map_option (\<lambda>(r, s). (r, sleeps (trace s)))
        (retrySpec envBusy (Chunk 1 (Some [1, 2, 3])) [1, 2, 3] 0 0 3 zeroWriter)
       = Some ((Continue, 5), [backoff 0, backoff 1])
   \<and> map backoff [0, 1, 9, 10, 11] = [15000000, 30000000, 7680000000, 15000000000, 15000000000]"
proof -
  let ?c = "Chunk 1 (Some [1, 2, 3])"
  have r3: "map_option (\<lambda>(r, s). (r, sleeps (trace s))) (retrySpec envBusy ?c [1, 2, 3] 0 0 3 zeroWriter)
              = Some ((Continue, 5), [backoff 0, backoff 1])"
    by code_simp
  then obtain z where z: "retrySpec envBusy ?c [1, 2, 3] 0 0 3 zeroWriter = Some z"
    by (cases "retrySpec envBusy ?c [1, 2, 3] 0 0 3 zeroWriter") simp_all
  have b: "map backoff [0, 1, 9, 10, 11] = [15000000, 30000000, 7680000000, 15000000000, 15000000000]"
    by (simp add: backoff_def Millisecond_def Second_def)
  from C5_worker_backoff_and_exits [of envBusy ?c "[1, 2, 3]" 0 zeroWriter z] z
  have "uploadRetry envBusy ?c [1, 2, 3] 0 (Millisecond * 15) zeroWriter = Some z" by blast
  with C5_worker_backoff_and_exits [of envAlwaysBusy ?c "[1, 2, 3]" 0 zeroWriter] alwaysRetryable_envAlwaysBusy z r3 b
  show ?thesis by simp
qed

subsection \<open>Close\<close>

lemma err_setErr: "err (setErr e s) = (case err s of None \<Rightarrow> e | Some x \<Rightarrow> Some x)"
  by (simp add: setErr_def split: option.splits)


lemma simpleRetry_frame:
  assumes "simpleRetry env ue b sha ct s = Some y"
  shows "done_fired (snd y) = done_fired s \<and> err (snd y) = err s \<and> cidx (snd y) = cidx s
         \<and> w (snd y) = w s \<and> handoffs (trace (snd y)) = handoffs (trace s)
         \<and> sleeps (trace (snd y)) = sleeps (trace s)"
  using assms
proof (induction env ue b sha ct s y rule: simpleRetry.raw_induct[rotated 1, consumes 1, case_names step])
  case (step sr env ue b sha ct s y)
  let ?s1 = "logEv (EvUploadFile ue b (Len b) (name s) ct sha (info s)) s"
  show ?case
  proof (cases "uploadFile env (tick s) ue")
    case (Inr f)
    with step(2) show ?thesis by (auto simp: Let_def)
  next
    case (Inl e)
    note up = this
    show ?thesis
    proof (cases "reupload env (Some e)")
      case False
      with step(2) up show ?thesis by (auto simp: Let_def)
    next
      case True
      show ?thesis
      proof (cases "getUploadURL env (Suc (tick s))")
        case (Inl e2)
        with step(2) up True show ?thesis by (auto simp: Let_def)
      next
        case (Inr u)
        with step(2) up True have "sr env u b sha ct (logEv EvGetUploadURL ?s1) = Some y"
          by (auto simp: Let_def)
        from step(1) [OF this] show ?thesis by simp
      qed
    qed
  qed
qed

lemma simpleWriteFile_frame:
  assumes "simpleWriteFile env s = Some (Inr (r, s'))"
  shows "done_fired s' = done_fired s \<and> err s' = err s \<and> cidx s' = cidx s
         \<and> w s' = w s \<and> handoffs (trace s') = handoffs (trace s)
         \<and> sleeps (trace s') = sleeps (trace s)"
proof (cases "getUploadURL env (tick s)")
  case (Inl e)
  with assms show ?thesis by (auto simp: simpleWriteFile_def)
next
  case (Inr ue)
  with assms obtain b where b: "w s = Some b"
    by (cases "w s") (auto simp: simpleWriteFile_def Let_def)
  show ?thesis
  proof (cases "readerErr env b")
    case (Some e)
    with assms Inr b show ?thesis by (auto simp: simpleWriteFile_def Let_def)
  next
    case None
    with assms Inr b have
      "simpleRetry env ue b (hashOf env b) (defaultCType (contentType s)) (logEv EvGetUploadURL s) = Some (r, s')"
      by (auto simp: simpleWriteFile_def Let_def)
    from simpleRetry_frame [OF this] show ?thesis by simp
  qed
qed

lemma sendChunk_keeps:
  assumes "sendChunk env s = Some (Inr (r, s'))"
  shows "done_fired s' = done_fired s \<and> (err s \<noteq> None \<longrightarrow> err s' = err s)"
proof -
  from assms obtain r1 s1 where ob: "onceBody env s = Some (r1, s1)"
    by (cases "onceBody env s") (auto simp: sendChunk_def)
  then have f: "frame s s1" by (rule frame_onceBody)
  show ?thesis
  proof (cases r1)
    case (Some e)
    with assms ob f show ?thesis by (auto simp: sendChunk_def frame_def)
  next
    case None
    with assms ob f show ?thesis
      by (auto simp: sendChunk_def frame_def Let_def err_setErr
               split: select_outcome.splits chan.splits)
  qed
qed

lemma finishParts_keeps:
  assumes "finishParts env s = Inr s'"
  shows "done_fired s' = done_fired s \<and> (err s \<noteq> None \<longrightarrow> err s' = err s)"
  using assms
  by (auto simp: finishParts_def Let_def err_setErr split: chan.splits option.splits sum.splits)

lemma closeBody_keeps:
  assumes "closeBody env s = Some (Inr s')"
  shows "done_fired s' = done_fired s \<and> (err s \<noteq> None \<longrightarrow> err s' = err s)"
proof (cases "cidx s = 0")
  case True
  with assms obtain e s1 where sw: "simpleWriteFile env s = Some (Inr (e, s1))" and s': "s' = setErr e s1"
    by (auto simp: closeBody_def split: option.splits sum.splits)
  from simpleWriteFile_frame [OF sw] s' show ?thesis
    by (auto simp: err_setErr)
next
  case False
  with assms obtain b where b: "w s = Some b"
    by (cases "w s") (auto simp: closeBody_def)
  let ?X = "if Len b > 0 then sendChunk env s else Some (Inr (None, s))"
  from assms False b have cb:
    "(case ?X of
        None \<Rightarrow> None
      | Some (Inl f) \<Rightarrow> Some (Inl f)
      | Some (Inr (Some e, s1)) \<Rightarrow> Some (Inr (setErr (Some e) s1))
      | Some (Inr (None, s1)) \<Rightarrow> Some (finishParts env s1)) = Some (Inr s')"
    by (simp add: closeBody_def)
  then obtain r1 s1 where x: "?X = Some (Inr (r1, s1))"
    by (cases ?X) (auto split: sum.splits)
  have k1: "done_fired s1 = done_fired s \<and> (err s \<noteq> None \<longrightarrow> err s1 = err s)"
  proof (cases "Len b > 0")
    case True
    with x have "sendChunk env s = Some (Inr (r1, s1))" by simp
    then show ?thesis by (rule sendChunk_keeps)
  next
    case False
    with x show ?thesis by simp
  qed
  show ?thesis
  proof (cases r1)
    case (Some e)
    with cb x have "s' = setErr (Some e) s1" by simp
    with k1 show ?thesis by (auto simp: err_setErr)
  next
    case None
    with cb x have "finishParts env s1 = Inr s'" by simp
    from finishParts_keeps [OF this] k1 show ?thesis by auto
  qed
qed

lemma Close_sets_done:
  assumes "Close env s = Some (Inr (r, s'))"
  shows "done_fired s'"
proof (cases "done_fired s")
  case True
  with assms show ?thesis by (simp add: Close_def)
next
  case False
  with assms have "closeBody env (s\<lparr>done_fired := True\<rparr>) = Some (Inr s')"
    by (auto simp: Close_def split: option.splits sum.splits)
  from closeBody_keeps [OF this] show ?thesis by simp
qed


lemma demo_run:
  "writeAll envOK demoSlices demoWriter = Some (Inr (None, demoWritten))"
  "Close envOK demoWritten = Some (Inr (None, demoClosed))"
proof -
  have pre: "\<not> start_fired demoWriter" "err demoWriter = None" "cidx demoWriter = 0"
    "handoffs (trace demoWriter) = []" "\<not> done_fired demoWriter"
    "2 = (if ChunkSize demoWriter = 0 then 100000000 else ChunkSize demoWriter)" "(0::int) < 2"
    "5 = int (length (concat demoSlices))" "(2::int) < 5"
    "healthy envOK" "\<not> once_fired demoWriter" "\<not> Resume demoWriter"
    by (simp_all add: demoWriter_def zeroWriter_def demoSlices_def healthy_envOK)
  from healthy_run_returns [OF pre]
  obtain t1 t2 where t: "writeAll envOK demoSlices demoWriter = Some (Inr (None, t1))"
    "Close envOK t1 = Some (Inr (None, t2))"
    by blast
  then have st: "demoWritten = t1" "demoClosed = t2"
    by (simp_all add: demoWritten_def demoClosed_def stateOf_def)
  with t show "writeAll envOK demoSlices demoWriter = Some (Inr (None, demoWritten))"
    "Close envOK demoWritten = Some (Inr (None, demoClosed))"
    by simp_all
qed

lemma Close_again_without_worker_step:
  "Close env s = Some (Inr (r, s')) \<longrightarrow>
     done_fired s' \<and> r = getErr s' \<and> Close env' s' = Some (Inr (r, s'))"
proof
  assume c: "Close env s = Some (Inr (r, s'))"
  then have "done_fired s'" by (rule Close_sets_done)
  moreover from c have "r = getErr s'" by (rule Close_returns_getErr)
  ultimately show "done_fired s' \<and> r = getErr s' \<and> Close env' s' = Some (Inr (r, s'))"
    by (simp add: Close_def)
qed

text \<open>
  C6, evaluated where it fails. A second \<^verbatim>\<open>Close\<close> does none of the finalization work
  again, and applied to the very Writer the first call left behind it returns the same
  value (\<open>Close_again_without_worker_step\<close>). But the Writer can change between the two
  calls: with two workers asked for, one accepts the only chunk, \<^verbatim>\<open>Close\<close> closes the
  queue, \<^verbatim>\<open>w.wg.Wait()\<close> returns because the second worker has not yet called
  \<^verbatim>\<open>w.wg.Add(1)\<close>, the large file is finished and \<^verbatim>\<open>Close\<close> returns nil. The second
  worker then fails to get its upload URL and stores that error, and the second
  \<^verbatim>\<open>Close\<close> returns it.
\<close>

theorem C6_second_close_differs_after_late_worker:
  "trace raceWritten
     = [EvStartLargeFile [] ''application/octet-stream'' None, EvThread, EvThread,
        EvHandOff (Chunk 1 (Some [1, 2]))]
   \<and> resultOf (Close envLate raceWritten) = Some (Inr None)
   \<and> trace (stateOf (Close envLate raceWritten))
       = trace raceWritten @ [EvCloseReady, EvWait, EvFinishLargeFile 7]
   \<and> resultOf (closeWorkerClose envLate raceWritten)
       = Some (Inr (None, Some (Err ''no upload url'')))
   \<and> trace (stateOf (closeWorkerClose envLate raceWritten))
       = trace (stateOf (Close envLate raceWritten)) @ [EvGetUploadPartURL]"
  unfolding raceWritten_def by code_simp

subsection \<open>The first Close always calls out\<close>
















subsection \<open>WithAttrs\<close>

lemma fold_mapStore:
  "r < length h \<Longrightarrow>
     fold (\<lambda>(k, v) hh. mapStore hh r k v) xs h
       = h[r := fold (\<lambda>(k, v) m. AList.update k v m) xs (h ! r)]"
proof (induction xs arbitrary: h)
  case Nil
  then show ?case by simp
next
  case (Cons x xs)
  obtain k v where x: "x = (k, v)" by (cases x)
  let ?h = "h[r := AList.update k v (h ! r)]"
  have "r < length ?h" using Cons.prems by simp
  from Cons.IH [OF this] Cons.prems x show ?case
    by (simp add: mapStore_def)
qed

lemma map_of_fold_update:
  "map_of (fold (\<lambda>(k, v) m. AList.update k v m) xs acc) = map_of acc ++ map_of (rev xs)"
proof (induction xs arbitrary: acc)
  case Nil
  then show ?case by simp
next
  case (Cons x xs)
  obtain k v where x: "x = (k, v)" by (cases x)
  have "map_of (AList.update k v acc) ++ map_of (rev xs)
          = map_of acc ++ (map_of [(k, v)] ++ map_of (rev xs))"
    by (simp add: update_conv' map_add_def fun_eq_iff split: option.splits)
  with Cons.IH [of "AList.update k v acc"] x show ?case
    by simp
qed

lemma distinct_fold_update:
  "distinct (map fst acc) \<Longrightarrow> distinct (map fst (fold (\<lambda>(k, v) m. AList.update k v m) xs acc))"
proof (induction xs arbitrary: acc)
  case Nil
  then show ?case by simp
next
  case (Cons x xs)
  obtain k v where x: "x = (k, v)" by (cases x)
  from Cons.IH [of "AList.update k v acc"] Cons.prems x show ?case
    by (simp add: distinct_update)
qed

lemma map_of_rev_distinct: "distinct (map fst xs) \<Longrightarrow> map_of (rev xs) = map_of xs"
proof -
  assume d: "distinct (map fst xs)"
  then have "distinct (map fst (rev xs))" by (simp add: rev_map [symmetric])
  with d show ?thesis
    by (subst map_of_inject_set) simp_all
qed

lemma length_card_dom: "distinct (map fst m) \<Longrightarrow> length m = card (dom (map_of m))"
  using distinct_card [of "map fst m"] by (simp add: dom_map_of_conv_image_fst)

lemma copy_of_entries:
  assumes "distinct (map fst src)"
  shows "map_of (fold (\<lambda>(k, v) m. AList.update k v m) src []) = map_of src"
    and "distinct (map fst (fold (\<lambda>(k, v) m. AList.update k v m) src []))"
    and "length (fold (\<lambda>(k, v) m. AList.update k v m) src []) = card (dom (map_of src))"
proof -
  show m: "map_of (fold (\<lambda>(k, v) m. AList.update k v m) src []) = map_of src"
    using map_of_fold_update [of src "[]"] map_of_rev_distinct [OF assms] by simp
  show d: "distinct (map fst (fold (\<lambda>(k, v) m. AList.update k v m) src []))"
    by (rule distinct_fold_update) simp
  from length_card_dom [OF d] m
  show "length (fold (\<lambda>(k, v) m. AList.update k v m) src []) = card (dom (map_of src))"
    by simp
qed

lemma mapEntries_distinct: "wfStore h \<Longrightarrow> distinct (map fst (mapEntries h r))"
  by (auto simp: wfStore_def mapEntries_def list_all_length split: option.splits)

text \<open>
  C10. \<^verbatim>\<open>WithAttrs\<close> on a store of well-formed maps, with attributes whose \<^verbatim>\<open>Info\<close> is
  nil or one of the store's maps: the Writer's content type is the attributes', its
  \<^verbatim>\<open>info\<close> is a new map (a reference that was not in the store, so not the caller's) and
  the maps that were in the store are as before. The new map holds the entries of
  \<^verbatim>\<open>attrs.Info\<close>, and in addition the key \<open>src_last_modified_millis\<close> with the decimal
  milliseconds of \<^verbatim>\<open>LastModified\<close> exactly when the copy has fewer than ten entries and
  \<^verbatim>\<open>LastModified\<close> is not the zero time; otherwise it holds the entries of \<^verbatim>\<open>attrs.Info\<close>
  only. Whatever is later stored at any reference the caller holds, the Writer's map
  reads the same.
\<close>

theorem C10_WithAttrs_copies_and_stamps:
  assumes "wfStore h" and "validRef h (Info attrs)"
  shows "\<exists>h'. WithAttrs (Some attrs) (h, s)
               = Inr (h', s\<lparr>contentType := ContentType attrs, info := Some (length h)\<rparr>)
          \<and> Some (length h) \<noteq> Info attrs
          \<and> length h' = Suc (length h) \<and> take (length h) h' = h
          \<and> wfStore h'
          \<and> map_of (mapEntries h' (Some (length h))) =
              (if card (dom (map_of (mapEntries h (Info attrs)))) < 10
                  \<and> \<not> IsZero (LastModified attrs)
               then (map_of (mapEntries h (Info attrs)))
                      (''src_last_modified_millis'' \<mapsto>
                         Sprintf_d (goDiv (UnixNano (LastModified attrs)) 1000000))
               else map_of (mapEntries h (Info attrs)))
          \<and> (\<forall>a m. a < length h \<longrightarrow>
                mapEntries (h'[a := m]) (Some (length h)) = mapEntries h' (Some (length h)))"
proof -
  let ?r = "length h"
  let ?src = "mapEntries h (Info attrs)"
  let ?copy = "fold (\<lambda>(k, v) m. AList.update k v m) ?src []"
  let ?ts = "Sprintf_d (goDiv (UnixNano (LastModified attrs)) 1000000)"
  let ?stamp = "card (dom (map_of ?src)) < 10 \<and> \<not> IsZero (LastModified attrs)"
  let ?new = "if ?stamp then AList.update ''src_last_modified_millis'' ?ts ?copy else ?copy"
  have src1: "mapEntries (h @ [[]]) (Info attrs) = ?src"
    using assms(2) by (auto simp: mapEntries_def validRef_def nth_append split: option.splits)
  have dsrc: "distinct (map fst ?src)" using assms(1) by (rule mapEntries_distinct)
  note cp = copy_of_entries [OF dsrc]
  have h2: "fold (\<lambda>(k, v) hh. mapStore hh ?r k v) ?src (h @ [[]]) = h @ [?copy]"
    using fold_mapStore [of ?r "h @ [[]]" ?src] by simp
  have len2: "int (length (mapEntries (h @ [?copy]) (Some ?r))) < 10 \<longleftrightarrow> card (dom (map_of ?src)) < 10"
    using cp(3) by (simp add: mapEntries_def)
  have W: "WithAttrs (Some attrs) (h, s)
             = Inr (h @ [?new], s\<lparr>contentType := ContentType attrs, info := Some ?r\<rparr>)"
    using src1 h2 len2 by (simp add: WithAttrs_def Let_def mapStore_def)
  have fresh: "Some ?r \<noteq> Info attrs"
    using assms(2) by (auto simp: validRef_def split: option.splits)
  have dnew: "distinct (map fst ?new)"
    using cp(2) by (simp add: distinct_update)
  have wf: "wfStore (h @ [?new])"
    using assms(1) dnew by (simp add: wfStore_def)
  have mp: "map_of (mapEntries (h @ [?new]) (Some ?r)) =
              (if ?stamp then (map_of ?src)(''src_last_modified_millis'' \<mapsto> ?ts) else map_of ?src)"
    using cp(1) by (simp add: mapEntries_def update_conv')
  have indep: "\<forall>a m. a < ?r \<longrightarrow>
                 mapEntries ((h @ [?new])[a := m]) (Some ?r) = mapEntries (h @ [?new]) (Some ?r)"
    by (simp add: mapEntries_def)
  from W fresh wf mp indep show ?thesis
    by (intro exI [of _ "h @ [?new]"]) simp
qed

theorem C10_WithAttrs_copies_and_stamps_witness:
  "wfStore demoStore \<and> validRef demoStore (Info demoAttrs)
   \<and> map_sum id fst (WithAttrs (Some demoAttrs) (demoStore, zeroWriter))
       = Inr (demoStore @ [[(''a'', ''1''), (''src_last_modified_millis'', ''1500000000123'')]])
   \<and> map_sum id (\<lambda>hs. info (snd hs)) (WithAttrs (Some demoAttrs) (demoStore, zeroWriter)) = Inr (Some 2)
   \<and> map_sum id fst (WithAttrs (Some (demoAttrs\<lparr>Info := Some 1\<rparr>)) (demoStore, zeroWriter))
       = Inr (demoStore @ [demoStore ! 1])
   \<and> map_sum id fst (WithAttrs (Some (demoAttrs\<lparr>LastModified := \<lparr>unixSec = - 62135596800, nsec = 0\<rparr>\<rparr>))
                        (demoStore, zeroWriter))
       = Inr (demoStore @ [[(''a'', ''1'')]])"
proof -
  have wf: "wfStore demoStore"
    by (simp add: wfStore_def demoStore_def)
  have v: "validRef demoStore (Info demoAttrs)" "validRef demoStore (Info (demoAttrs\<lparr>Info := Some 1\<rparr>))"
    by (simp_all add: validRef_def demoStore_def demoAttrs_def)
  from C10_WithAttrs_copies_and_stamps [OF wf v(1), of zeroWriter]
  obtain h' where a: "WithAttrs (Some demoAttrs) (demoStore, zeroWriter)
      = Inr (h', zeroWriter\<lparr>contentType := ContentType demoAttrs, info := Some (length demoStore)\<rparr>)"
    by blast
  have ts: "Sprintf_d (goDiv (UnixNano (LastModified demoAttrs)) 1000000) = ''1500000000123''"
    by (simp add: Sprintf_d_def goDiv_def UnixNano_def demoAttrs_def wrap64_def digits.simps)
  have e1: "map_sum id fst (WithAttrs (Some demoAttrs) (demoStore, zeroWriter))
       = Inr (demoStore @ [[(''a'', ''1''), (''src_last_modified_millis'', ''1500000000123'')]])"
    using ts by (simp add: WithAttrs_def Let_def mapStore_def mapEntries_def demoStore_def
        demoAttrs_def IsZero_def)
  have e2: "map_sum id fst (WithAttrs (Some (demoAttrs\<lparr>Info := Some 1\<rparr>)) (demoStore, zeroWriter))
       = Inr (demoStore @ [demoStore ! 1])"
    by (simp add: WithAttrs_def Let_def mapStore_def mapEntries_def demoStore_def
        demoAttrs_def IsZero_def)
  have e3: "map_sum id fst (WithAttrs (Some (demoAttrs\<lparr>LastModified := \<lparr>unixSec = - 62135596800, nsec = 0\<rparr>\<rparr>))
                        (demoStore, zeroWriter))
       = Inr (demoStore @ [[(''a'', ''1'')]])"
    by (simp add: WithAttrs_def Let_def mapStore_def mapEntries_def demoStore_def
        demoAttrs_def IsZero_def)
  from a have "map_sum id (\<lambda>hs. info (snd hs)) (WithAttrs (Some demoAttrs) (demoStore, zeroWriter)) = Inr (Some 2)"
    by (simp add: demoStore_def)
  with wf v(1) e1 e2 e3 show ?thesis by simp
qed

end
